theory Spec2Isabelle
  imports Complex_Main "HOL-Library.Word"
begin

unbundle bit_operations_syntax

section \<open>Protocol error codes\<close>

text \<open>
  The node raises \<^verbatim>\<open>Error(code)\<close> with codes declared in \<^verbatim>\<open>general/errors.hpp\<close>.
  Only the identity of a code matters here, so the codes used by the event loop are the
  constructors of a datatype.
\<close>

datatype errcode =
    ECHECKSUM | EBLOCKSIZE | EINV_BODY
  | ENOINIT | EINVINIT | EUNREQUESTED
  | EBATCHSIZE | EEMPTY | ELOWPRIORITY | ETIMEOUT
  | OtherError "32 word"

section \<open>Block body container\<close>

text \<open>
  \<^verbatim>\<open>BodyContainer\<close> owns one byte vector \<^verbatim>\<open>bytes\<close>. Its span constructor has an empty
  member-initialiser list and a body that only compares the span's size with
  \<^verbatim>\<open>MAXBLOCKSIZE\<close>; the constant comes from \<^verbatim>\<open>general/params.hpp\<close> and is a parameter here.
  The constructor from a \<^verbatim>\<open>Reader\<close> is the one that assigns the bytes.
\<close>

record BodyContainer =
  bytes :: "8 word list"

definition BodyContainer_span :: "nat \<Rightarrow> 8 word list \<Rightarrow> errcode + BodyContainer" where
  "BodyContainer_span MAXBLOCKSIZE s =
     (if length s > MAXBLOCKSIZE then Inl EBLOCKSIZE
      else Inr \<lparr>bytes = []\<rparr>)"

definition BodyContainer_reader :: "8 word list \<Rightarrow> BodyContainer" where
  "BodyContainer_reader s = \<lparr>bytes = s\<rparr>"

text \<open>
  \<^verbatim>\<open>parse_structure\<close> hands the stored bytes to \<^verbatim>\<open>BodyStructure::parse\<close>, which is a
  parameter; \<^verbatim>\<open>parse_structure_throw\<close> turns an empty optional into \<^verbatim>\<open>EINV_BODY\<close>.
\<close>

definition parse_structure ::
  "(8 word list \<Rightarrow> 'h \<Rightarrow> 'v \<Rightarrow> 'b option) \<Rightarrow> BodyContainer \<Rightarrow> 'h \<Rightarrow> 'v \<Rightarrow> 'b option" where
  "parse_structure parse c h v = parse (bytes c) h v"

definition parse_structure_throw ::
  "(8 word list \<Rightarrow> 'h \<Rightarrow> 'v \<Rightarrow> 'b option) \<Rightarrow> BodyContainer \<Rightarrow> 'h \<Rightarrow> 'v \<Rightarrow> errcode + 'b" where
  "parse_structure_throw parse c h v =
     (case parse_structure parse c h v of Some p \<Rightarrow> Inr p | None \<Rightarrow> Inl EINV_BODY)"

section \<open>The event queue shared with other threads\<close>

text \<open>
  The variables of \<^verbatim>\<open>Eventloop\<close> that its mutex protects. \<^verbatim>\<open>closeReason\<close> is an
  \<^verbatim>\<open>int32_t\<close>, \<^verbatim>\<open>events\<close> a \<^verbatim>\<open>std::queue\<close> (push at the back, pop at the front), and
  \<^verbatim>\<open>notified\<close> counts the calls of \<^verbatim>\<open>cv.notify_one()\<close>. Every function below runs with the
  mutex held from its first to its last statement, so it is one atomic step on this record.
  \<^verbatim>\<open>Eventloop::defer\<close> is named \<open>defer_event\<close> here.
\<close>

record 'e guarded =
  haswork :: bool
  closeReason :: "32 word"
  events :: "'e list"
  notified :: nat

definition defer_event :: "'e \<Rightarrow> 'e guarded \<Rightarrow> bool \<times> 'e guarded" where
  "defer_event e g =
     (if closeReason g \<noteq> 0 then (False, g)
      else (True, g\<lparr>haswork := True, events := events g @ [e], notified := notified g + 1\<rparr>))"

definition async_shutdown :: "32 word \<Rightarrow> 'e guarded \<Rightarrow> 'e guarded" where
  "async_shutdown reason g =
     g\<lparr>haswork := True, closeReason := reason, notified := notified g + 1\<rparr>"

section \<open>The timer wheel\<close>

type_synonym conId = "64 word"
type_synonym time = nat

text \<open>
  Time points and durations of \<^verbatim>\<open>std::chrono::steady_clock\<close> are counted in milliseconds.
  The payloads are the alternatives of \<^verbatim>\<open>Timer::Event\<close> that the loop handles.
\<close>

datatype timer_event =
    Connect
  | SendPing conId
  | ThrottledSend conId
  | Expire conId
  | CloseNoReply conId
  | CloseNoPong conId

text \<open>
  Modelled from the spec: the timer wheel (\<^verbatim>\<open>eventloop/timer.hpp\<close> is not among the
  sources). It is an ordered map from deadline to payload with \<^verbatim>\<open>insert\<close>, \<^verbatim>\<open>cancel\<close>,
  \<^verbatim>\<open>pop_expired\<close> and \<^verbatim>\<open>next\<close>. An entry is (deadline, handle, payload); a handle
  stands for the iterator that \<^verbatim>\<open>insert\<close> returns and is never reused. The entries are
  listed as they were inserted; the map is read in deadline order, entries of equal deadline
  in insertion order. An entry has expired at \<open>now\<close> when its deadline is at most \<open>now\<close>.
\<close>

type_synonym timer_entry = "time \<times> nat \<times> timer_event"

record Timer =
  entries :: "timer_entry list"
  fresh :: nat

text \<open>
  Modelled from the spec: the order in which the ordered map is read, by deadline; the
  sort is stable, so entries of equal deadline keep their insertion order.
\<close>

definition in_order :: "Timer \<Rightarrow> timer_entry list" where
  "in_order t = sort_key fst (entries t)"

text \<open>
  Modelled from the spec: \<^verbatim>\<open>Timer::insert\<close>, given the deadline (the clock reading plus
  the delay); it returns the handle of the new entry.
\<close>

definition timer_insert :: "time \<Rightarrow> timer_event \<Rightarrow> Timer \<Rightarrow> nat \<times> Timer" where
  "timer_insert deadline ev t =
     (fresh t, \<lparr>entries = entries t @ [(deadline, fresh t, ev)], fresh = Suc (fresh t)\<rparr>)"

text \<open>Modelled from the spec: \<^verbatim>\<open>Timer::cancel\<close> removes the entry of a handle.\<close>

definition timer_cancel :: "nat \<Rightarrow> Timer \<Rightarrow> Timer" where
  "timer_cancel h t = t\<lparr>entries := filter (\<lambda>e. fst (snd e) \<noteq> h) (entries t)\<rparr>"

text \<open>
  Modelled from the spec: the deadline an iterator points to (\<^verbatim>\<open>iter->first\<close>), none for
  a handle that is no longer in the map.
\<close>

definition timer_deadline :: "nat \<Rightarrow> Timer \<Rightarrow> time option" where
  "timer_deadline h t = map_option fst (List.find (\<lambda>e. fst (snd e) = h) (entries t))"


text \<open>
  Modelled from the spec: \<^verbatim>\<open>Timer::pop_expired\<close> reads the map from its front as long as
  the entries have expired, returns these entries in that order and removes them from the
  map.
\<close>

definition pop_expired :: "time \<Rightarrow> Timer \<Rightarrow> timer_entry list \<times> Timer" where
  "pop_expired now t =
     (takeWhile (\<lambda>e. fst e \<le> now) (in_order t),
      t\<lparr>entries := filter (\<lambda>e. \<not> fst e \<le> now) (entries t)\<rparr>)"

section \<open>Peers\<close>

text \<open>
  The requests a job can hold. A batch request carries the bounds that the reply is checked
  against and the start height of its selector. \<^verbatim>\<open>isActiveRequest\<close> and \<^verbatim>\<open>expiry_time\<close>
  are the members that \<^verbatim>\<open>Eventloop::send_request\<close> reads.
\<close>

datatype request_data =
    Proberequest
  | Batchrequest (minReturn: nat) (max_return: nat) (startHeight: nat)
  | Blockrequest

record request =
  req_data :: request_data
  req_nonce :: "32 word"
  isActiveRequest :: bool
  expiry_time :: time

datatype job = AwaitInit | NoJob | Req request

record 'p SignedSnapshot =
  priority :: 'p
  signed_data :: "8 word list"

datatype sndbuffer =
    InitSnd
  | PingSnd
  | RequestSnd request
  | BlockrepSnd "32 word" "BodyContainer list"
  | OtherSnd "8 word list"

text \<open>
  Modelled from the spec: the throttled send queue of a peer (declared in
  \<^verbatim>\<open>eventloop/types/conndata.hpp\<close>, not among the sources). It accepts buffers with a
  minimum gap: \<^verbatim>\<open>insert\<close> appends the buffer and arms a \<^verbatim>\<open>ThrottledSend\<close> timer when none
  is armed, for the earliest moment the next send is allowed; \<^verbatim>\<open>add_throttle\<close> moves that
  moment by the given gap; \<^verbatim>\<open>reset_timer_get_buf\<close> forgets the fired timer and takes the
  head of the queue; \<^verbatim>\<open>update_timer\<close> arms the timer again while buffers remain. Taking a
  buffer from an empty queue yields none.
\<close>

record ThrottleQueue =
  rateLimitedOutput :: "sndbuffer list"
  throttle_timer :: "nat option"
  next_send :: time

text \<open>
  Modelled from the spec: \<^verbatim>\<open>update_timer\<close> of the throttled queue arms a
  \<^verbatim>\<open>ThrottledSend\<close> timer for the earliest allowed send time if buffers wait and no timer
  is armed.
\<close>

definition update_timer :: "time \<Rightarrow> conId \<Rightarrow> ThrottleQueue \<Rightarrow> Timer \<Rightarrow> ThrottleQueue \<times> Timer" where
  "update_timer now cid q t =
     (if rateLimitedOutput q \<noteq> [] \<and> throttle_timer q = None then
        (case timer_insert (max now (next_send q)) (ThrottledSend cid) t of
           (h, t') \<Rightarrow> (q\<lparr>throttle_timer := Some h\<rparr>, t'))
      else (q, t))"

text \<open>
  Modelled from the spec: \<^verbatim>\<open>insert\<close> of the throttled queue appends the buffer and sees
  to the timer.
\<close>

definition throttled_insert ::
  "time \<Rightarrow> sndbuffer \<Rightarrow> conId \<Rightarrow> ThrottleQueue \<Rightarrow> Timer \<Rightarrow> ThrottleQueue \<times> Timer" where
  "throttled_insert now b cid q t =
     update_timer now cid (q\<lparr>rateLimitedOutput := rateLimitedOutput q @ [b]\<rparr>) t"

text \<open>
  Modelled from the spec: \<^verbatim>\<open>add_throttle\<close> moves the earliest allowed send time by the
  gap, counted from the clock reading if that is later.
\<close>

definition add_throttle :: "time \<Rightarrow> time \<Rightarrow> ThrottleQueue \<Rightarrow> ThrottleQueue" where
  "add_throttle now d q = q\<lparr>next_send := max now (next_send q) + d\<rparr>"

text \<open>
  Modelled from the spec: \<^verbatim>\<open>reset_timer_get_buf\<close> forgets the timer that fired and takes
  the head of the queue.
\<close>

definition reset_timer_get_buf :: "ThrottleQueue \<Rightarrow> sndbuffer option \<times> ThrottleQueue" where
  "reset_timer_get_buf q =
     (case rateLimitedOutput q of
        [] \<Rightarrow> (None, q\<lparr>throttle_timer := None\<rparr>)
      | b # bs \<Rightarrow> (Some b, q\<lparr>rateLimitedOutput := bs, throttle_timer := None\<rparr>))"

text \<open>
  The state the loop keeps for a registered peer (\<^verbatim>\<open>PeerState\<close>): its job with the job's
  timer reference, the ping timer reference, the nonce of the last block request, the two
  snapshot priorities and the throttled queue. A timer reference that equals
  \<^verbatim>\<open>timer.end()\<close> is \<open>None\<close>. Priorities are values of a linear order \<open>'p\<close>.
\<close>

record 'p PeerState =
  job :: job
  job_timer :: "nat option"
  ping_timer :: "nat option"
  lastNonce :: "32 word"
  theirSnapshotPriority :: 'p
  acknowledgedSnapshotPriority :: 'p
  throttled :: ThrottleQueue

text \<open>The two flags of a \<^verbatim>\<open>Connection\<close> that belong to the loop.\<close>

record Connection =
  eventloop_registered :: bool
  eventloop_erased :: bool

section \<open>The state of the loop\<close>

text \<open>
  Calls that leave the loop (to the transport, the chain server, the connection manager)
  are recorded in the order they are made.
\<close>

datatype 'p effect =
    AsyncSend conId sndbuffer
  | AsyncClose conId errcode
  | AsyncConnect nat
  | AsyncSetSignedCheckpoint "'p SignedSnapshot"
  | AsyncGetBlocks conId nat nat

text \<open>
  \<^verbatim>\<open>activeRequests\<close> and \<^verbatim>\<open>maxRequests\<close> are \<^verbatim>\<open>size_t\<close>. \<open>conn\<close> gives the flags of
  every connection object by id (both false for one the loop has not seen), \<open>connections\<close>
  is the registry of peer states, \<open>now\<close> is what the steady clock reads while the current
  handler runs. The header and block downloaders, the chain cache, the mempool and the
  address schedule are not among the sources; their joint state is the component \<open>sync\<close> of
  an arbitrary type \<open>'x\<close>.
\<close>

record ('p, 'x) Eventloop =
  activeRequests :: "64 word"
  maxRequests :: "64 word"
  conn :: "conId \<Rightarrow> Connection"
  connections :: "conId \<rightharpoonup> 'p PeerState"
  timer :: Timer
  wakeupTimer :: "nat option"
  now :: time
  effects :: "'p effect list"
  sync :: 'x

record ChainOffender =
  offence :: errcode
  offender_height :: nat
  offender_conId :: conId

type_synonym Batch = "8 word list list"

datatype 'p message =
    PingMsg "8 word list"
  | PongMsg "8 word list"
  | BatchreqMsg "8 word list"
  | BatchrepMsg "32 word" Batch
  | ProbereqMsg "8 word list"
  | ProberepMsg "8 word list"
  | BlockreqMsg "32 word" nat nat
  | BlockrepMsg "8 word list"
  | InitMsg "8 word list"
  | AppendMsg "8 word list"
  | SignedPinRollbackMsg "8 word list"
  | ForkMsg "8 word list"
  | TxnotifyMsg "8 word list"
  | TxreqMsg "8 word list"
  | TxrepMsg "8 word list"
  | LeaderMsg "'p SignedSnapshot"

text \<open>
  What a handler returns: \<open>Inr s\<close> when it returns normally in state \<open>s\<close>, \<open>Inl (e, s)\<close>
  when it throws \<^verbatim>\<open>Error(e)\<close> with the loop in state \<open>s\<close>.
\<close>

type_synonym ('p, 'x) handled = "(errcode \<times> ('p, 'x) Eventloop) + ('p, 'x) Eventloop"

text \<open>
  The operations of the components that are not among the sources are the fields of one
  record. The functions of the loop that consist of downloader calls only
  (\<^verbatim>\<open>do_requests\<close>, \<^verbatim>\<open>initialize_block_download\<close>) and the message handlers that are not
  embedded below are fields as well; they may change the loop state in any way.
\<close>

record ('p, 'x) collaborators =
  hd_erase :: "conId \<Rightarrow> 'x \<Rightarrow> bool \<times> 'x"
  bd_erase :: "conId \<Rightarrow> 'x \<Rightarrow> bool \<times> 'x"
  registry_erase :: "conId \<Rightarrow> 'x \<Rightarrow> bool \<times> 'x"
  registry_insert :: "conId \<Rightarrow> 'x \<Rightarrow> (errcode + 'p PeerState) \<times> 'x"
  wakeup_time :: "'x \<Rightarrow> time option"
  pop_connect :: "'x \<Rightarrow> nat list \<times> 'x"
  consensus_total_work :: "'x \<Rightarrow> nat"
  bd_reachable_totalwork :: "'x \<Rightarrow> nat"
  hd_set_min_worksum :: "nat \<Rightarrow> 'x \<Rightarrow> 'x"
  bd_set_min_worksum :: "nat \<Rightarrow> 'x \<Rightarrow> 'x"
  hd_on_response :: "conId \<Rightarrow> request \<Rightarrow> Batch \<Rightarrow> 'x \<Rightarrow> ChainOffender list \<times> 'x"
  hd_on_probe_request_expire :: "conId \<Rightarrow> 'x \<Rightarrow> 'x"
  bd_on_probe_expire :: "conId \<Rightarrow> 'x \<Rightarrow> 'x"
  hd_on_request_expire :: "conId \<Rightarrow> request \<Rightarrow> 'x \<Rightarrow> 'x"
  bd_on_blockreq_expire :: "conId \<Rightarrow> 'x \<Rightarrow> 'x"
  localDebug :: bool
  do_requests :: "('p, 'x) Eventloop \<Rightarrow> ('p, 'x) Eventloop"
  initialize_block_download :: "('p, 'x) Eventloop \<Rightarrow> ('p, 'x) Eventloop"
  handle_msg_other :: "conId \<Rightarrow> 'p message \<Rightarrow> ('p, 'x) Eventloop \<Rightarrow> ('p, 'x) handled"
  handle_event_other :: "nat \<Rightarrow> ('p, 'x) Eventloop \<Rightarrow> ('p, 'x) Eventloop"
  update_sync_state :: "('p, 'x) Eventloop \<Rightarrow> ('p, 'x) Eventloop"

section \<open>Sending, closing and erasing\<close>

text \<open>
  A \<^verbatim>\<open>Conref\<close> is an iterator into the registry; here it is the connection id, and a
  function that is given an id without a peer state leaves the loop unchanged (the source
  never holds such a reference). \<^verbatim>\<open>Conref::send\<close> sends unless the connection is erased.
\<close>

definition Conref_send :: "conId \<Rightarrow> sndbuffer \<Rightarrow> ('p, 'x) Eventloop \<Rightarrow> ('p, 'x) Eventloop" where
  "Conref_send c b s =
     (if \<not> eventloop_erased (conn s c) then s\<lparr>effects := effects s @ [AsyncSend c b]\<rparr> else s)"

text \<open>
  Modelled from the spec: \<^verbatim>\<open>connections.find\<close> of the peer registry (the address manager
  is not among the sources). The registry is keyed by connection id and \<^verbatim>\<open>erase\<close> removes
  the peer, so an erased peer is not found; its state stays allocated until
  \<^verbatim>\<open>garbage_collect\<close>.
\<close>

definition connections_find :: "conId \<Rightarrow> ('p, 'x) Eventloop \<Rightarrow> 'p PeerState option" where
  "connections_find c s =
     (if eventloop_erased (conn s c) then None else connections s c)"

definition update_wakeup :: "('p, 'x) collaborators \<Rightarrow> ('p, 'x) Eventloop \<Rightarrow> ('p, 'x) Eventloop" where
  "update_wakeup env s =
     (let wakeupTime = wakeup_time env (sync s) in
      if wakeupTimer s \<noteq> None \<and> wakeupTime \<noteq> None \<and>
         wakeupTime = timer_deadline (the (wakeupTimer s)) (timer s)
      then s
      else
        let s1 = (case wakeupTimer s of
                    Some h \<Rightarrow> s\<lparr>timer := timer_cancel h (timer s), wakeupTimer := None\<rparr>
                  | None \<Rightarrow> s)
        in case wakeupTime of
             None \<Rightarrow> s1
           | Some w \<Rightarrow>
               (case timer_insert w Connect (timer s1) of
                  (h, t) \<Rightarrow> s1\<lparr>timer := t, wakeupTimer := Some h\<rparr>))"

definition coordinate_sync :: "('p, 'x) collaborators \<Rightarrow> ('p, 'x) Eventloop \<Rightarrow> ('p, 'x) Eventloop" where
  "coordinate_sync env s =
     (let cons = consensus_total_work env (sync s);
          blk = bd_reachable_totalwork env (sync s);
          mx = max cons blk
      in s\<lparr>sync := bd_set_min_worksum env cons (hd_set_min_worksum env mx (sync s))\<rparr>)"

definition connect_scheduled :: "('p, 'x) collaborators \<Rightarrow> ('p, 'x) Eventloop \<Rightarrow> ('p, 'x) Eventloop" where
  "connect_scheduled env s =
     (case pop_connect env (sync s) of
        (as, x) \<Rightarrow> s\<lparr>sync := x, effects := effects s @ map AsyncConnect as\<rparr>)"

text \<open>
  Modelled from the spec: \<^verbatim>\<open>unref_active_requests\<close> of a job (declared with the request
  types, not among the sources). A job that holds a request counted as active gives its
  slot back: the counter is decremented (as \<^verbatim>\<open>size_t\<close>) and the request is no longer
  active. Any other job leaves the counter alone.
\<close>

definition unref_active_requests :: "job \<Rightarrow> 64 word \<Rightarrow> job \<times> 64 word" where
  "unref_active_requests j a =
     (case j of
        Req r \<Rightarrow> if isActiveRequest r then (Req (r\<lparr>isActiveRequest := False\<rparr>), a - 1) else (j, a)
      | _ \<Rightarrow> (j, a))"

text \<open>Cancelling a timer reference that may be \<^verbatim>\<open>timer.end()\<close>.\<close>

definition cancel_opt :: "nat option \<Rightarrow> Timer \<Rightarrow> Timer" where
  "cancel_opt r t = (case r of Some h \<Rightarrow> timer_cancel h t | None \<Rightarrow> t)"

text \<open>The job of peer \<open>c\<close> gives its slot back to the counter of the loop.\<close>

definition unref_job :: "conId \<Rightarrow> ('p, 'x) Eventloop \<Rightarrow> ('p, 'x) Eventloop" where
  "unref_job c s =
     (case connections s c of
        None \<Rightarrow> s
      | Some p \<Rightarrow>
          (case unref_active_requests (job p) (activeRequests s) of
             (j, a) \<Rightarrow> s\<lparr>activeRequests := a, connections := (connections s)(c \<mapsto> p\<lparr>job := j\<rparr>)\<rparr>))"

text \<open>
  \<^verbatim>\<open>Eventloop::erase\<close>. The local \<^verbatim>\<open>doRequests\<close> stays false, so the final
  \<^verbatim>\<open>do_requests\<close> is not reached; the error code is only logged.
\<close>

definition erase ::
  "('p, 'x) collaborators \<Rightarrow> conId \<Rightarrow> errcode \<Rightarrow> ('p, 'x) Eventloop \<Rightarrow> ('p, 'x) Eventloop" where
  "erase env c error s =
     (case connections s c of
        None \<Rightarrow> s
      | Some p \<Rightarrow>
          if eventloop_erased (conn s c) then s
          else
            let s0 = unref_job c (s\<lparr>conn := (conn s)(c := (conn s c)\<lparr>eventloop_erased := True\<rparr>)\<rparr>);
                s1 = s0\<lparr>timer := cancel_opt (job_timer p) (cancel_opt (ping_timer p) (timer s0))\<rparr>;
                (h, x1) = hd_erase env c (sync s1);
                (b, x2) = bd_erase env c x1;
                s2 = (if b then coordinate_sync env (s1\<lparr>sync := x2\<rparr>) else s1\<lparr>sync := x2\<rparr>);
                (w, x3) = registry_erase env c (sync s2);
                s3 = s2\<lparr>sync := x3\<rparr>
            in if w then update_wakeup env s3 else s3)"

definition close ::
  "('p, 'x) collaborators \<Rightarrow> conId \<Rightarrow> errcode \<Rightarrow> ('p, 'x) Eventloop \<Rightarrow> ('p, 'x) Eventloop" where
  "close env cr reason s =
     (if \<not> eventloop_registered (conn s cr) then s
      else erase env cr reason (s\<lparr>effects := effects s @ [AsyncClose cr reason]\<rparr>))"

text \<open>\<^verbatim>\<open>Eventloop::close(const ChainOffender&)\<close>; \<^verbatim>\<open>report\<close> has an empty body.\<close>

definition close_offender ::
  "('p, 'x) collaborators \<Rightarrow> ChainOffender \<Rightarrow> ('p, 'x) Eventloop \<Rightarrow> ('p, 'x) Eventloop" where
  "close_offender env off s =
     (case connections_find (offender_conId off) s of
        Some p \<Rightarrow> close env (offender_conId off) (offence off) s
      | None \<Rightarrow> s)"

section \<open>Requests\<close>

datatype abort = AssertionFailed





text \<open>
  Modelled from the spec: \<^verbatim>\<open>pop_req\<close> of a job (not among the sources). A reply is
  correlated with the peer's current job: the job must hold a request of the reply's kind
  with the reply's nonce, else \<^verbatim>\<open>EUNREQUESTED\<close> is thrown. The request is taken out of the
  job: its timer is cancelled, its slot is given back and the peer has no job.
\<close>

definition pop_req ::
  "(request_data \<Rightarrow> bool) \<Rightarrow> 32 word \<Rightarrow> conId \<Rightarrow> ('p, 'x) Eventloop
     \<Rightarrow> errcode + (request \<times> ('p, 'x) Eventloop)" where
  "pop_req kind nonce c s =
     (case connections s c of
        None \<Rightarrow> Inl EUNREQUESTED
      | Some p \<Rightarrow>
          (case job p of
             Req r \<Rightarrow>
               if kind (req_data r) \<and> req_nonce r = nonce then
                 let s1 = unref_job c s;
                     s2 = s1\<lparr>timer := cancel_opt (job_timer p) (timer s1)\<rparr>
                 in Inr (r, s2\<lparr>connections := (connections s2)(c \<mapsto> p\<lparr>job := NoJob, job_timer := None\<rparr>)\<rparr>)
               else Inl EUNREQUESTED
           | _ \<Rightarrow> Inl EUNREQUESTED))"

definition is_Batchrequest :: "request_data \<Rightarrow> bool" where
  "is_Batchrequest d = (case d of Batchrequest a b c \<Rightarrow> True | _ \<Rightarrow> False)"

section \<open>Message handlers\<close>

text \<open>\<^verbatim>\<open>Eventloop::handle_msg(Conref, LeaderMsg&&)\<close>.\<close>

definition handle_msg_Leader ::
  "('p::linorder, 'x) collaborators \<Rightarrow> conId \<Rightarrow> 'p SignedSnapshot \<Rightarrow> ('p, 'x) Eventloop
     \<Rightarrow> ('p, 'x) handled" where
  "handle_msg_Leader env cr signedSnapshot s =
     (case connections s cr of
        None \<Rightarrow> Inr s
      | Some p \<Rightarrow>
          if priority signedSnapshot \<le> acknowledgedSnapshotPriority p
          then Inr (close env cr ELOWPRIORITY s)
          else
            let p1 = p\<lparr>acknowledgedSnapshotPriority := priority signedSnapshot\<rparr>;
                p2 = (if theirSnapshotPriority p1 < priority signedSnapshot
                      then p1\<lparr>theirSnapshotPriority := priority signedSnapshot\<rparr> else p1)
            in Inr (s\<lparr>connections := (connections s)(cr \<mapsto> p2),
                      effects := effects s @ [AsyncSetSignedCheckpoint signedSnapshot]\<rparr>))"

text \<open>\<^verbatim>\<open>Eventloop::handle_msg(Conref, BatchrepMsg&&)\<close>.\<close>

definition handle_msg_Batchrep ::
  "('p, 'x) collaborators \<Rightarrow> conId \<Rightarrow> 32 word \<Rightarrow> Batch \<Rightarrow> ('p, 'x) Eventloop
     \<Rightarrow> ('p, 'x) handled" where
  "handle_msg_Batchrep env cr nonce batch s =
     (case pop_req is_Batchrequest nonce cr s of
        Inl e \<Rightarrow> Inl (e, s)
      | Inr (req, s1) \<Rightarrow>
          if length batch < minReturn (req_data req) \<or> length batch > max_return (req_data req)
          then Inr (close_offender env
                      \<lparr>offence = EBATCHSIZE, offender_height = startHeight (req_data req),
                       offender_conId = cr\<rparr> s1)
          else
            (case hd_on_response env cr req batch (sync s1) of
               (offenders, x) \<Rightarrow>
                 Inr (do_requests env
                        (initialize_block_download env
                           (fold (close_offender env) offenders (s1\<lparr>sync := x\<rparr>))))))"

text \<open>\<^verbatim>\<open>Eventloop::handle_msg(Conref, BlockreqMsg&&)\<close>.\<close>

definition handle_msg_Blockreq ::
  "conId \<Rightarrow> 32 word \<Rightarrow> nat \<Rightarrow> nat \<Rightarrow> ('p, 'x) Eventloop \<Rightarrow> ('p, 'x) Eventloop" where
  "handle_msg_Blockreq cr nonce lower upper s =
     (case connections s cr of
        None \<Rightarrow> s
      | Some p \<Rightarrow>
          s\<lparr>connections := (connections s)(cr \<mapsto> p\<lparr>lastNonce := nonce\<rparr>),
            effects := effects s @ [AsyncGetBlocks cr lower upper]\<rparr>)"

definition handle_msg ::
  "('p::linorder, 'x) collaborators \<Rightarrow> conId \<Rightarrow> 'p message \<Rightarrow> ('p, 'x) Eventloop
     \<Rightarrow> ('p, 'x) handled" where
  "handle_msg env cr m s =
     (case m of
        LeaderMsg signedSnapshot \<Rightarrow> handle_msg_Leader env cr signedSnapshot s
      | BatchrepMsg nonce batch \<Rightarrow> handle_msg_Batchrep env cr nonce batch s
      | BlockreqMsg nonce lower upper \<Rightarrow> Inr (handle_msg_Blockreq cr nonce lower upper s)
      | _ \<Rightarrow> handle_msg_other env cr m s)"

section \<open>The message dispatcher\<close>

text \<open>
  A receive buffer is given by what its \<^verbatim>\<open>verify()\<close> and \<^verbatim>\<open>parse()\<close> return; parsing can
  throw.
\<close>

record 'p Rcvbuffer =
  verify :: bool
  parse :: "errcode + 'p message"

text \<open>
  Modelled from the spec: \<^verbatim>\<open>awaiting_init\<close> of a job (not among the sources): a peer is
  awaiting its init message until that message has been handled.
\<close>

definition awaiting_init :: "job \<Rightarrow> bool" where
  "awaiting_init j = (j = AwaitInit)"

definition holds_InitMsg :: "'p message \<Rightarrow> bool" where
  "holds_InitMsg m = (case m of InitMsg d \<Rightarrow> True | _ \<Rightarrow> False)"

definition dispatch_message ::
  "('p::linorder, 'x) collaborators \<Rightarrow> conId \<Rightarrow> 'p Rcvbuffer \<Rightarrow> ('p, 'x) Eventloop
     \<Rightarrow> ('p, 'x) handled" where
  "dispatch_message env cr msg s =
     (if verify msg = False then Inl (ECHECKSUM, s)
      else
        (case parse msg of
           Inl e \<Rightarrow> Inl (e, s)
         | Inr m \<Rightarrow>
             (case connections s cr of
                None \<Rightarrow> Inr s
              | Some p \<Rightarrow>
                  if awaiting_init (job p) then
                    (if \<not> holds_InitMsg m then Inl (ENOINIT, s) else handle_msg env cr m s)
                  else
                    (if holds_InitMsg m then Inl (EINVINIT, s) else handle_msg env cr m s))))"

text \<open>The loop over the extracted messages in \<^verbatim>\<open>Eventloop::process_connection\<close>.\<close>

fun process_messages ::
  "('p::linorder, 'x) collaborators \<Rightarrow> conId \<Rightarrow> 'p Rcvbuffer list \<Rightarrow> ('p, 'x) Eventloop
     \<Rightarrow> ('p, 'x) Eventloop" where
  "process_messages env cr [] s = s"
| "process_messages env cr (msg # msgs) s =
     (case dispatch_message env cr msg s of
        Inl (e, s1) \<Rightarrow> do_requests env (close env cr e s1)
      | Inr s1 \<Rightarrow>
          if eventloop_erased (conn s1 cr) then s1 else process_messages env cr msgs s1)"

text \<open>
  \<^verbatim>\<open>Eventloop::process_connection\<close>. For a fresh connection the registry decides on
  admission; an admitted peer gets the state that the constructor of \<^verbatim>\<open>PeerState\<close>
  builds: it awaits the init message and its job timer is a \<^verbatim>\<open>CloseNoReply\<close> after 30 s.
\<close>

definition process_connection ::
  "('p::linorder, 'x) collaborators \<Rightarrow> conId \<Rightarrow> 'p Rcvbuffer list \<Rightarrow> ('p, 'x) Eventloop
     \<Rightarrow> ('p, 'x) Eventloop" where
  "process_connection env c messages s =
     (if eventloop_erased (conn s c) then s
      else if \<not> eventloop_registered (conn s c) then
        (let s1 = s\<lparr>conn := (conn s)(c := (conn s c)\<lparr>eventloop_registered := True\<rparr>)\<rparr> in
         case registry_insert env c (sync s1) of
           (Inl error, x) \<Rightarrow>
             (let s2 = connect_scheduled env (update_wakeup env (s1\<lparr>sync := x\<rparr>)) in
              s2\<lparr>effects := effects s2 @ [AsyncClose c error],
                 conn := (conn s2)(c := (conn s2 c)\<lparr>eventloop_erased := True\<rparr>)\<rparr>)
         | (Inr p, x) \<Rightarrow>
             (case timer_insert (now s1 + 30000) (CloseNoReply c) (timer s1) of
                (t, tm) \<Rightarrow>
                  let s2 = s1\<lparr>sync := x, timer := tm,
                             connections := (connections s1)(c \<mapsto> p\<lparr>job := AwaitInit, job_timer := Some t\<rparr>)\<rparr>;
                      s3 = connect_scheduled env (update_wakeup env s2)
                  in process_messages env c messages (Conref_send c InitSnd s3)))
      else process_messages env c messages s)"

section \<open>Throttled sending\<close>

text \<open>\<^verbatim>\<open>Eventloop::send_throttled\<close>: the buffer is queued, then the throttle is added.\<close>

definition send_throttled ::
  "conId \<Rightarrow> sndbuffer \<Rightarrow> time \<Rightarrow> ('p, 'x) Eventloop \<Rightarrow> ('p, 'x) Eventloop" where
  "send_throttled cr b d s =
     (case connections s cr of
        None \<Rightarrow> s
      | Some p \<Rightarrow>
          (case throttled_insert (now s) b cr (throttled p) (timer s) of
             (q, tm) \<Rightarrow>
               s\<lparr>timer := tm,
                 connections := (connections s)(cr \<mapsto> p\<lparr>throttled := add_throttle (now s) d q\<rparr>)\<rparr>))"

text \<open>\<^verbatim>\<open>Eventloop::handle_event(OnForwardBlockrep&&)\<close>; the duration literal is \<^verbatim>\<open>1s\<close>.\<close>

definition handle_event_OnForwardBlockrep ::
  "conId \<Rightarrow> BodyContainer list \<Rightarrow> ('p, 'x) Eventloop \<Rightarrow> ('p, 'x) Eventloop" where
  "handle_event_OnForwardBlockrep conId blocks s =
     (case connections_find conId s of
        Some p \<Rightarrow> send_throttled conId (BlockrepSnd (lastNonce p) blocks) 1000 s
      | None \<Rightarrow> s)"

section \<open>Timeouts\<close>

definition on_request_expired ::
  "('p, 'x) collaborators \<Rightarrow> conId \<Rightarrow> request \<Rightarrow> ('p, 'x) Eventloop \<Rightarrow> ('p, 'x) Eventloop" where
  "on_request_expired env cr req s =
     (case req_data req of
        Proberequest \<Rightarrow>
          do_requests env
            (s\<lparr>sync := bd_on_probe_expire env cr (hd_on_probe_request_expire env cr (sync s))\<rparr>)
      | Batchrequest a b c \<Rightarrow>
          do_requests env (s\<lparr>sync := hd_on_request_expire env cr req (sync s)\<rparr>)
      | Blockrequest \<Rightarrow>
          do_requests env (s\<lparr>sync := bd_on_blockreq_expire env cr (sync s)\<rparr>))"

text \<open>
  The first statements of the \<^verbatim>\<open>Expire\<close> handler: the job timer becomes a
  \<^verbatim>\<open>CloseNoReply\<close> timer (2 min, 10 min in a local debug run) and the request gives its slot
  back.
\<close>

definition restart_expired_unref ::
  "('p, 'x) collaborators \<Rightarrow> conId \<Rightarrow> ('p, 'x) Eventloop \<Rightarrow> ('p, 'x) Eventloop" where
  "restart_expired_unref env cr s =
     (case connections s cr of
        None \<Rightarrow> s
      | Some p \<Rightarrow>
          (case timer_insert (now s + (if localDebug env then 600000 else 120000))
                  (CloseNoReply cr) (timer s) of
             (t, tm) \<Rightarrow>
               unref_job cr
                 (s\<lparr>timer := tm, connections := (connections s)(cr \<mapsto> p\<lparr>job_timer := Some t\<rparr>)\<rparr>)))"

text \<open>
  \<^verbatim>\<open>Eventloop::handle_connection_timeout\<close> for the five payloads that name a connection.
  In the \<^verbatim>\<open>Expire\<close> handler a job that holds no request runs into \<^verbatim>\<open>assert(false)\<close>.
\<close>

definition send_ping_await_pong ::
  "('p, 'x) collaborators \<Rightarrow> conId \<Rightarrow> ('p, 'x) Eventloop \<Rightarrow> ('p, 'x) Eventloop" where
  "send_ping_await_pong env c s =
     (case connections s c of
        None \<Rightarrow> s
      | Some p \<Rightarrow>
          (case timer_insert (now s + (if localDebug env then 600000 else 60000))
                  (CloseNoPong c) (timer s) of
             (t, tm) \<Rightarrow>
               Conref_send c PingSnd
                 (s\<lparr>timer := tm, connections := (connections s)(c \<mapsto> p\<lparr>ping_timer := Some t\<rparr>)\<rparr>)))"

definition handle_connection_timeout ::
  "('p, 'x) collaborators \<Rightarrow> conId \<Rightarrow> timer_event \<Rightarrow> 'p PeerState \<Rightarrow> ('p, 'x) Eventloop
     \<Rightarrow> abort + ('p, 'x) Eventloop" where
  "handle_connection_timeout env cr ev p s =
     (case ev of
        CloseNoReply i \<Rightarrow>
          Inr (close env cr ETIMEOUT
                 (s\<lparr>connections := (connections s)(cr \<mapsto> p\<lparr>job_timer := None\<rparr>)\<rparr>))
      | CloseNoPong i \<Rightarrow>
          Inr (close env cr ETIMEOUT
                 (s\<lparr>connections := (connections s)(cr \<mapsto> p\<lparr>ping_timer := None\<rparr>)\<rparr>))
      | SendPing i \<Rightarrow>
          Inr (send_ping_await_pong env cr
                 (s\<lparr>connections := (connections s)(cr \<mapsto> p\<lparr>ping_timer := None\<rparr>)\<rparr>))
      | ThrottledSend i \<Rightarrow>
          (case reset_timer_get_buf (throttled p) of
             (b, q) \<Rightarrow>
               let s1 = s\<lparr>connections := (connections s)(cr \<mapsto> p\<lparr>throttled := q\<rparr>)\<rparr>;
                   s2 = (case b of Some buf \<Rightarrow> Conref_send cr buf s1 | None \<Rightarrow> s1)
               in (case update_timer (now s2) cr q (timer s2) of
                     (q', tm) \<Rightarrow>
                       Inr (s2\<lparr>timer := tm,
                               connections := (connections s2)(cr \<mapsto> p\<lparr>throttled := q'\<rparr>)\<rparr>)))
      | Expire i \<Rightarrow>
          (case job p of
             Req r \<Rightarrow> Inr (on_request_expired env cr r (restart_expired_unref env cr s))
           | _ \<Rightarrow> Inl AssertionFailed)
      | Connect \<Rightarrow> Inr s)"

text \<open>
  \<^verbatim>\<open>Eventloop::handle_timeout\<close>: a payload with a connection id is handled only if the
  connection is still found; \<^verbatim>\<open>Connect\<close> dials the scheduled addresses.
\<close>

definition timer_conId :: "timer_event \<Rightarrow> conId option" where
  "timer_conId ev =
     (case ev of
        Connect \<Rightarrow> None
      | SendPing i \<Rightarrow> Some i
      | ThrottledSend i \<Rightarrow> Some i
      | Expire i \<Rightarrow> Some i
      | CloseNoReply i \<Rightarrow> Some i
      | CloseNoPong i \<Rightarrow> Some i)"

definition handle_timeout ::
  "('p, 'x) collaborators \<Rightarrow> timer_event \<Rightarrow> ('p, 'x) Eventloop \<Rightarrow> abort + ('p, 'x) Eventloop" where
  "handle_timeout env ev s =
     (case timer_conId ev of
        None \<Rightarrow>
          (case pop_connect env (sync s) of
             (as, x) \<Rightarrow>
               Inr (update_wakeup env
                      (s\<lparr>wakeupTimer := None, sync := x,
                         effects := effects s @ map AsyncConnect as\<rparr>)))
      | Some conId \<Rightarrow>
          (case connections_find conId s of
             Some p \<Rightarrow> handle_connection_timeout env conId ev p s
           | None \<Rightarrow> Inr s))"

section \<open>Events and the work cycle\<close>

text \<open>
  The alternatives of \<^verbatim>\<open>Eventloop::Event\<close>. A connection to process comes with the
  messages that \<^verbatim>\<open>extractMessages\<close> yields. The alternatives whose handlers only call
  components outside the sources are \<open>OtherEvent\<close>.
\<close>

datatype 'p event =
    OnRelease conId errcode
  | OnProcessConnection conId "'p Rcvbuffer list"
  | OnForwardBlockrep conId "BodyContainer list"
  | OtherEvent nat

definition handle_event ::
  "('p::linorder, 'x) collaborators \<Rightarrow> 'p event \<Rightarrow> ('p, 'x) Eventloop
     \<Rightarrow> abort + ('p, 'x) Eventloop" where
  "handle_event env e s =
     (case e of
        OnRelease c error \<Rightarrow>
          Inr (if \<not> eventloop_erased (conn s c) \<and> eventloop_registered (conn s c)
               then erase env c error s else s)
      | OnProcessConnection c messages \<Rightarrow> Inr (process_connection env c messages s)
      | OnForwardBlockrep conId blocks \<Rightarrow> Inr (handle_event_OnForwardBlockrep conId blocks s)
      | OtherEvent k \<Rightarrow> Inr (handle_event_other env k s))"

text \<open>Running a handler over a list of items in order; an abort ends the run.\<close>

fun run_all :: "('a \<Rightarrow> 's \<Rightarrow> abort + 's) \<Rightarrow> 'a list \<Rightarrow> 's \<Rightarrow> abort + 's" where
  "run_all f [] s = Inr s"
| "run_all f (x # xs) s = (case f x s of Inl a \<Rightarrow> Inl a | Inr s' \<Rightarrow> run_all f xs s')"

text \<open>
  Modelled from the spec: \<^verbatim>\<open>garbage_collect\<close> of the registry (not among the sources)
  frees the states of erased peers.
\<close>

definition garbage_collect :: "('p, 'x) Eventloop \<Rightarrow> ('p, 'x) Eventloop" where
  "garbage_collect s =
     s\<lparr>connections := (\<lambda>c. if eventloop_erased (conn s c) then None else connections s c)\<rparr>"

text \<open>
  \<^verbatim>\<open>Eventloop::work\<close>: under the mutex the queue is swapped out and the expired timer
  entries are collected; then the expired entries are handled, then the events. The clock
  reading \<open>now\<close> is the same for the whole call.
\<close>

definition work ::
  "('p::linorder, 'x) collaborators \<Rightarrow> 'p event guarded \<times> ('p, 'x) Eventloop
     \<Rightarrow> abort + ('p event guarded \<times> ('p, 'x) Eventloop)" where
  "work env gs =
     (case gs of (g, s) \<Rightarrow>
        let tmp = events g;
            g1 = g\<lparr>events := []\<rparr>
        in case pop_expired (now s) (timer s) of
             (expired, t) \<Rightarrow>
               (case run_all (handle_timeout env) (map (\<lambda>e. snd (snd e)) expired) (s\<lparr>timer := t\<rparr>) of
                  Inl a \<Rightarrow> Inl a
                | Inr s2 \<Rightarrow>
                    (case run_all (handle_event env) tmp s2 of
                       Inl a \<Rightarrow> Inl a
                     | Inr s3 \<Rightarrow> Inr (g1, update_sync_state env (garbage_collect s3)))))"

section \<open>Invariant of the request counter\<close>

text \<open>
  The part of \<^verbatim>\<open>erase\<close> that the connection flags, the registry and the request counter
  see: the connection is marked erased and its job gives its slot back.
\<close>

definition erase_core :: "conId \<Rightarrow> ('p, 'x) Eventloop \<Rightarrow> ('p, 'x) Eventloop" where
  "erase_core c s = unref_job c (s\<lparr>conn := (conn s)(c := (conn s c)\<lparr>eventloop_erased := True\<rparr>)\<rparr>)"

text \<open>
  The peers whose job holds a request that counts as active, and the invariant of the
  counter: the registry is finite, no more peers hold an active request than the counter
  says, and the counter is at most \<^verbatim>\<open>maxRequests\<close>.
\<close>

definition active_peers :: "('p, 'x) Eventloop \<Rightarrow> conId set" where
  "active_peers s = {c. \<exists>p r. connections s c = Some p \<and> job p = Req r \<and> isActiveRequest r}"

definition requests_bounded :: "('p, 'x) Eventloop \<Rightarrow> bool" where
  "requests_bounded s \<longleftrightarrow>
     finite (dom (connections s)) \<and>
     card (active_peers s) \<le> unat (activeRequests s) \<and>
     activeRequests s \<le> maxRequests s"






section \<open>The order of one work cycle\<close>

text \<open>
  The order the spec gives for one cycle, to compare \<^verbatim>\<open>work\<close> with: the expired timer
  entries and the queued events are one list of work items; the items are handled one
  after the other, each by its own handler, and a failed assertion ends the cycle.
\<close>

datatype 'p work_item = Timeout timer_event | Queued "'p event"

fun dispatch_in_order ::
  "('p::linorder, 'x) collaborators \<Rightarrow> 'p work_item list \<Rightarrow> ('p, 'x) Eventloop
     \<Rightarrow> abort + ('p, 'x) Eventloop" where
  "dispatch_in_order env [] s = Inr s"
| "dispatch_in_order env (Timeout ev # ds) s =
     (case handle_timeout env ev s of Inl a \<Rightarrow> Inl a | Inr s' \<Rightarrow> dispatch_in_order env ds s')"
| "dispatch_in_order env (Queued e # ds) s =
     (case handle_event env e s of Inl a \<Rightarrow> Inl a | Inr s' \<Rightarrow> dispatch_in_order env ds s')"

section \<open>Buffers handled without an error\<close>

text \<open>
  The state in which the dispatcher has handled every buffer of a list, one after the
  other, none of them raising an error or erasing the connection; none if one of them
  does.
\<close>

fun handled_all ::
  "('p::linorder, 'x) collaborators \<Rightarrow> conId \<Rightarrow> 'p Rcvbuffer list \<Rightarrow> ('p, 'x) Eventloop
     \<Rightarrow> ('p, 'x) Eventloop option" where
  "handled_all env cr [] s = Some s"
| "handled_all env cr (msg # msgs) s =
     (case dispatch_message env cr msg s of
        Inl x \<Rightarrow> None
      | Inr s1 \<Rightarrow> if eventloop_erased (conn s1 cr) then None else handled_all env cr msgs s1)"

section \<open>Armed throttle timers\<close>



section \<open>A concrete loop\<close>

text \<open>
  One peer, connection 7, with an active batch request (nonce 9, between 1 and 3 headers
  from height 100), acknowledged priority 3, in a loop with one of ten request slots in
  use at clock reading 5000. The collaborators do nothing and report nothing.
\<close>

definition example_request :: request where
  "example_request =
     \<lparr>req_data = Batchrequest 1 3 100, req_nonce = 9, isActiveRequest = True, expiry_time = 30000\<rparr>"

definition example_peer :: "nat PeerState" where
  "example_peer =
     \<lparr>job = Req example_request, job_timer = None, ping_timer = None, lastNonce = 5,
      theirSnapshotPriority = 1, acknowledgedSnapshotPriority = 3,
      throttled = \<lparr>rateLimitedOutput = [], throttle_timer = None, next_send = 0\<rparr>\<rparr>"

definition example_env :: "(nat, unit) collaborators" where
  "example_env =
     \<lparr>hd_erase = (\<lambda>c x. (True, x)),
      bd_erase = (\<lambda>c x. (False, x)),
      registry_erase = (\<lambda>c x. (False, x)),
      registry_insert = (\<lambda>c x. (Inr example_peer, x)),
      wakeup_time = (\<lambda>x. None),
      pop_connect = (\<lambda>x. ([], x)),
      consensus_total_work = (\<lambda>x. 0),
      bd_reachable_totalwork = (\<lambda>x. 0),
      hd_set_min_worksum = (\<lambda>w x. x),
      bd_set_min_worksum = (\<lambda>w x. x),
      hd_on_response = (\<lambda>c r b x. ([], x)),
      hd_on_probe_request_expire = (\<lambda>c x. x),
      bd_on_probe_expire = (\<lambda>c x. x),
      hd_on_request_expire = (\<lambda>c r x. x),
      bd_on_blockreq_expire = (\<lambda>c x. x),
      localDebug = False,
      do_requests = (\<lambda>s. s),
      initialize_block_download = (\<lambda>s. s),
      handle_msg_other = (\<lambda>c m s. Inr s),
      handle_event_other = (\<lambda>k s. s),
      update_sync_state = (\<lambda>s. s)\<rparr>"

definition example_loop :: "(nat, unit) Eventloop" where
  "example_loop =
     \<lparr>activeRequests = 1, maxRequests = 10,
      conn = (\<lambda>c. \<lparr>eventloop_registered = (c = 7), eventloop_erased = False\<rparr>),
      connections = [7 \<mapsto> example_peer],
      timer = \<lparr>entries = [], fresh = 0\<rparr>,
      wakeupTimer = None, now = 5000, effects = [], sync = ()\<rparr>"

text \<open>
  That loop with the peer holding one queued block reply and three timer entries, inserted
  in the order of their handles; two of them have expired at clock reading 5000. The queue
  holds two events for connection 7: a block request in a message with a good checksum,
  then a message with a bad checksum.
\<close>

definition example_timers :: "(nat, unit) Eventloop" where
  "example_timers =
     example_loop\<lparr>
       timer := \<lparr>entries = [(3000, 0, ThrottledSend 7), (9000, 1, Connect), (1000, 2, SendPing 7)],
                 fresh = 3\<rparr>,
       connections := [7 \<mapsto> example_peer\<lparr>throttled :=
          \<lparr>rateLimitedOutput = [BlockrepSnd 5 []], throttle_timer = Some 0, next_send = 3000\<rparr>\<rparr>]\<rparr>"

definition example_queue :: "nat event guarded" where
  "example_queue =
     \<lparr>haswork = True, closeReason = 0,
      events = [OnProcessConnection 7 [\<lparr>verify = True, parse = Inr (BlockreqMsg 4 1 2)\<rparr>],
                OnProcessConnection 7 [\<lparr>verify = False, parse = Inr (PingMsg [])\<rparr>]],
      notified = 2\<rparr>"







section \<open>TargetV1\<close>

text \<open>
  A \<^verbatim>\<open>TargetV1\<close> is its 32-bit \<^verbatim>\<open>data\<close>: the top byte counts required zero bits, the low
  24 bits are the mantissa. A \<^verbatim>\<open>Hash\<close> is an array of 32 bytes, here a list that the
  results take to be of length 32.
\<close>

type_synonym Hash = "8 word list"

definition zeros8 :: "32 word \<Rightarrow> 32 word" where
  "zeros8 data = drop_bit 24 data"

definition bits24 :: "32 word \<Rightarrow> 32 word" where
  "bits24 data = 0x00FFFFFF AND data"

text \<open>
  Both loops of \<^verbatim>\<open>compatible\<close> run an index upwards and return false at the first byte
  that is not zero.
\<close>

function all_zero_from :: "(nat \<Rightarrow> 8 word) \<Rightarrow> nat \<Rightarrow> nat \<Rightarrow> bool" where
  "all_zero_from f i n =
     (if i < n then (if f i \<noteq> 0 then False else all_zero_from f (Suc i) n) else True)"
  by pat_completeness auto
termination
  by (relation "measure (\<lambda>(f, i, n). n - i)") auto

declare all_zero_from.simps [simp del]

text \<open>
  The candidate: the bytes \<^verbatim>\<open>src[3], src[2], src[1], src[0]\<close> are copied to
  \<^verbatim>\<open>dst[0..3]\<close> and \<^verbatim>\<open>ntoh32\<close> reads the four bytes in network order, most significant
  byte first.
\<close>

definition read_candidate :: "Hash \<Rightarrow> nat \<Rightarrow> 32 word" where
  "read_candidate hash src =
     word_rcat [hash ! (src + 3), hash ! (src + 2), hash ! (src + 1), hash ! src]"

definition compatible :: "32 word \<Rightarrow> Hash \<Rightarrow> bool" where
  "compatible data hash =
     (let zeros = zeros8 data in
      if zeros > 256 - 4 * 8 then False
      else
        let bits = bits24 data in
        if bits AND 0x00800000 = 0 then False
        else
          let zerobytes = unat zeros div 8;
              shift = unat (zeros AND 0x07)
          in
            if \<not> all_zero_from (\<lambda>i. hash ! (31 - i)) 0 zerobytes then False
            else
              let threshold = push_bit (8 - shift) bits;
                  candidate = read_candidate hash (28 - zerobytes)
              in
                if candidate > threshold then False
                else if candidate < threshold then True
                else all_zero_from (\<lambda>i. hash ! i) 0 (28 - zerobytes))"

text \<open>
  \<^verbatim>\<open>difficulty()\<close> computes in \<^verbatim>\<open>double\<close>. The values it can return are the reals below
  and plus infinity (the quotient \<^verbatim>\<open>1 / 0.0\<close>). The conversion of the 24-bit mantissa is
  exact; the division is correctly rounded, to nearest with ties to even, on a 53-bit
  significand: for \<open>b\<close> of bit length \<open>k\<close> the quotient \<open>1 / b\<close> lies between \<open>2 ^ -k\<close> and
  \<open>2 ^ -(k - 1)\<close>, so its significand is the integer nearest to \<open>2 ^ (k + 52) / b\<close>;
  \<^verbatim>\<open>ldexp\<close> scales by a power of two without rounding, the exponents here being far from
  the limits of the format.
\<close>

fun bit_length :: "nat \<Rightarrow> nat" where
  "bit_length n = (if n = 0 then 0 else Suc (bit_length (n div 2)))"

declare bit_length.simps [simp del]

definition round_nearest_even :: "nat \<Rightarrow> nat \<Rightarrow> nat" where
  "round_nearest_even n d =
     (let q = n div d; r = n mod d in
      if 2 * r < d then q
      else if 2 * r > d then q + 1
      else if even q then q else q + 1)"

datatype double_value = Finite real | PlusInfinity

fun double_le :: "double_value \<Rightarrow> double_value \<Rightarrow> bool" where
  "double_le (Finite x) (Finite y) = (x \<le> y)"
| "double_le (Finite x) PlusInfinity = True"
| "double_le PlusInfinity (Finite y) = False"
| "double_le PlusInfinity PlusInfinity = True"

definition double_reciprocal :: "nat \<Rightarrow> double_value" where
  "double_reciprocal b =
     (if b = 0 then PlusInfinity
      else let k = bit_length b in
        Finite (real (round_nearest_even (2 ^ (k + 52)) b) / 2 ^ (k + 52)))"

definition ldexp :: "double_value \<Rightarrow> nat \<Rightarrow> double_value" where
  "ldexp x e = (case x of Finite r \<Rightarrow> Finite (r * 2 ^ e) | PlusInfinity \<Rightarrow> PlusInfinity)"

definition difficulty :: "32 word \<Rightarrow> double_value" where
  "difficulty data =
     (let zeros = unat (zeros8 data);
          dbits = unat (bits24 data)
      in ldexp (double_reciprocal dbits) (zeros + 24))"

text \<open>
  The targets that \<^verbatim>\<open>compatible\<close> does not reject outright, the hash read as a number
  (byte 0 least significant), the largest hash value a well-formed target admits, and the
  significand of \<open>1 / b\<close> for a mantissa with its top bit set.
\<close>

definition well_formed :: "32 word \<Rightarrow> bool" where
  "well_formed data \<longleftrightarrow> zeros8 data \<le> 224 \<and> bits24 data AND 0x00800000 \<noteq> 0"

fun le_value :: "8 word list \<Rightarrow> nat" where
  "le_value [] = 0"
| "le_value (b # bs) = unat b + 256 * le_value bs"

definition target_bound :: "32 word \<Rightarrow> nat" where
  "target_bound data = unat (bits24 data) * 2 ^ (232 - unat (zeros8 data))"

definition recip_sig :: "nat \<Rightarrow> nat" where
  "recip_sig b = round_nearest_even (2 ^ 76) b"


section \<open>Results about the body container\<close>

text \<open>
  C8: constructing a BodyContainer from a span longer than MAXBLOCKSIZE raises EBLOCKSIZE,
  and from every span of at most MAXBLOCKSIZE bytes the constructor returns a container.
\<close>

theorem BodyContainer_span_size_check:
  "(MAXBLOCKSIZE < length s \<longrightarrow> BodyContainer_span MAXBLOCKSIZE s = Inl EBLOCKSIZE) \<and>
   (length s \<le> MAXBLOCKSIZE \<longrightarrow> (\<exists>c. BodyContainer_span MAXBLOCKSIZE s = Inr c))"
  by (simp add: BodyContainer_span_def)

theorem BodyContainer_span_size_check_witness:
  "(2::nat) < length [1, 2, 3 :: 8 word] \<and> BodyContainer_span 2 [1, 2, 3] = Inl EBLOCKSIZE \<and>
   length [1, 2 :: 8 word] \<le> (2::nat) \<and> (\<exists>c. BodyContainer_span 2 [1, 2] = Inr c)"
  using BodyContainer_span_size_check [of 2 "[1, 2, 3]"]
        BodyContainer_span_size_check [of 2 "[1, 2]"]
  by simp

text \<open>
  C10: the span constructor stores nothing. For every span of at most MAXBLOCKSIZE bytes
  the container it builds has an empty bytes member, whatever the span holds, so
  parse_structure on that container parses the empty body.
\<close>

theorem BodyContainer_span_stores_nothing:
  "length s \<le> MAXBLOCKSIZE \<Longrightarrow>
   \<exists>c. BodyContainer_span MAXBLOCKSIZE s = Inr c \<and> bytes c = [] \<and>
       parse_structure body_parse c h v = body_parse [] h v"
  by (simp add: BodyContainer_span_def parse_structure_def)

theorem BodyContainer_span_stores_nothing_witness:
  "length [7, 8, 9 :: 8 word] \<le> (3::nat) \<and>
   (\<exists>c. BodyContainer_span 3 [7, 8, 9] = Inr c \<and> bytes c = [] \<and>
        parse_structure (\<lambda>bs (h::nat) (v::nat). Some (length bs)) c 1 1 = Some 0)"
  using BodyContainer_span_stores_nothing
          [of "[7, 8, 9]" 3 "\<lambda>bs (h::nat) (v::nat). Some (length bs)" 1 1]
  by simp

section \<open>Results about the event queue\<close>

text \<open>
  C5: defer returns false exactly when the close reason is set (shutdown has been
  initiated). When it returns false the guarded state is unchanged, so the event is not
  enqueued; when it returns true the event is the new last element of the FIFO queue,
  haswork is set and the condition variable is notified once.
\<close>

theorem defer_false_iff_shutdown:
  "(fst (defer_event e g) = False \<longleftrightarrow> closeReason g \<noteq> 0) \<and>
   (fst (defer_event e g) = False \<longrightarrow> snd (defer_event e g) = g) \<and>
   (fst (defer_event e g) = True \<longrightarrow>
      events (snd (defer_event e g)) = events g @ [e] \<and>
      haswork (snd (defer_event e g)) \<and>
      notified (snd (defer_event e g)) = notified g + 1 \<and>
      closeReason (snd (defer_event e g)) = closeReason g)"
  by (simp add: defer_event_def)

theorem defer_false_iff_shutdown_witness:
  "fst (defer_event (5::nat) (async_shutdown 3 \<lparr>haswork = False, closeReason = 0, events = [4], notified = 0\<rparr>)) = False \<and>
   events (snd (defer_event (5::nat) (async_shutdown 3 \<lparr>haswork = False, closeReason = 0, events = [4], notified = 0\<rparr>))) = [4] \<and>
   fst (defer_event (5::nat) \<lparr>haswork = False, closeReason = 0, events = [4], notified = 0\<rparr>) = True \<and>
   events (snd (defer_event (5::nat) \<lparr>haswork = False, closeReason = 0, events = [4], notified = 0\<rparr>)) = [4, 5]"
  using defer_false_iff_shutdown
          [of "5::nat" "async_shutdown 3 \<lparr>haswork = False, closeReason = 0, events = [4], notified = 0\<rparr>"]
        defer_false_iff_shutdown
          [of "5::nat" "\<lparr>haswork = False, closeReason = 0, events = [4], notified = 0\<rparr>"]
  by (simp add: async_shutdown_def)

section \<open>Results about the loop\<close>

lemma update_wakeup_frame:
  "effects (update_wakeup env s) = effects s"
  "conn (update_wakeup env s) = conn s"
  "connections (update_wakeup env s) = connections s"
  "activeRequests (update_wakeup env s) = activeRequests s"
  "maxRequests (update_wakeup env s) = maxRequests s"
  by (simp_all add: update_wakeup_def Let_def split: option.splits prod.splits)

lemma coordinate_sync_frame:
  "effects (coordinate_sync env s) = effects s"
  "conn (coordinate_sync env s) = conn s"
  "connections (coordinate_sync env s) = connections s"
  "activeRequests (coordinate_sync env s) = activeRequests s"
  "maxRequests (coordinate_sync env s) = maxRequests s"
  by (simp_all add: coordinate_sync_def Let_def)

lemma unref_job_frame:
  "effects (unref_job c s) = effects s"
  "conn (unref_job c s) = conn s"
  "maxRequests (unref_job c s) = maxRequests s"
  "timer (unref_job c s) = timer s"
  "sync (unref_job c s) = sync s"
  by (simp_all add: unref_job_def split: option.splits prod.splits)

lemma erase_frame:
  assumes "connections s c = Some p" "\<not> eventloop_erased (conn s c)"
  shows "effects (erase env c e s) = effects s"
    and "conn (erase env c e s) = conn (erase_core c s)"
    and "connections (erase env c e s) = connections (erase_core c s)"
    and "activeRequests (erase env c e s) = activeRequests (erase_core c s)"
    and "maxRequests (erase env c e s) = maxRequests s"
  using assms
  by (simp_all add: erase_def erase_core_def Let_def update_wakeup_frame coordinate_sync_frame
        unref_job_frame split: prod.splits)

lemma close_registered:
  assumes "eventloop_registered (conn s cr)" "connections s cr = Some p"
  shows "effects (close env cr e s) = effects s @ [AsyncClose cr e]"
    and "eventloop_erased (conn (close env cr e s) cr)"
proof -
  let ?s = "s\<lparr>effects := effects s @ [AsyncClose cr e]\<rparr>"
  have c: "connections ?s cr = Some p" using assms by simp
  show "effects (close env cr e s) = effects s @ [AsyncClose cr e]"
  proof (cases "eventloop_erased (conn s cr)")
    case True
    then show ?thesis using assms by (simp add: close_def erase_def)
  next
    case False
    then have "\<not> eventloop_erased (conn ?s cr)" by simp
    from erase_frame(1) [OF c this] show ?thesis using assms by (simp add: close_def)
  qed
  show "eventloop_erased (conn (close env cr e s) cr)"
  proof (cases "eventloop_erased (conn s cr)")
    case True
    then show ?thesis using assms by (simp add: close_def erase_def)
  next
    case False
    then have "\<not> eventloop_erased (conn ?s cr)" by simp
    from erase_frame(2) [OF c this] show ?thesis
      using assms by (simp add: close_def erase_core_def unref_job_frame)
  qed
qed

text \<open>
  C4: on a Leader message from a registered peer, a snapshot priority that does not
  strictly exceed the peer's acknowledged priority closes the peer with ELOWPRIORITY and
  makes no call to the chain server; a priority that strictly exceeds it becomes the
  acknowledged priority, raises the theirs-known priority if that was lower, and the
  snapshot is handed to the chain server's signed-checkpoint call.
\<close>

theorem handle_msg_Leader_priority:
  fixes env :: "('p::linorder, 'x) collaborators"
  assumes "connections s cr = Some p"
    and "eventloop_registered (conn s cr)"
  shows "(\<not> acknowledgedSnapshotPriority p < priority signedSnapshot \<longrightarrow>
           (\<exists>s'. handle_msg_Leader env cr signedSnapshot s = Inr s' \<and>
                 effects s' = effects s @ [AsyncClose cr ELOWPRIORITY] \<and>
                 eventloop_erased (conn s' cr))) \<and>
         (acknowledgedSnapshotPriority p < priority signedSnapshot \<longrightarrow>
           (\<exists>s' p'. handle_msg_Leader env cr signedSnapshot s = Inr s' \<and>
                 connections s' cr = Some p' \<and>
                 acknowledgedSnapshotPriority p' = priority signedSnapshot \<and>
                 theirSnapshotPriority p' = max (theirSnapshotPriority p) (priority signedSnapshot) \<and>
                 effects s' = effects s @ [AsyncSetSignedCheckpoint signedSnapshot] \<and>
                 conn s' = conn s))"
proof (intro conjI impI)
  assume "\<not> acknowledgedSnapshotPriority p < priority signedSnapshot"
  then have "priority signedSnapshot \<le> acknowledgedSnapshotPriority p" by simp
  then have "handle_msg_Leader env cr signedSnapshot s = Inr (close env cr ELOWPRIORITY s)"
    using assms by (simp add: handle_msg_Leader_def)
  then show "\<exists>s'. handle_msg_Leader env cr signedSnapshot s = Inr s' \<and>
                 effects s' = effects s @ [AsyncClose cr ELOWPRIORITY] \<and>
                 eventloop_erased (conn s' cr)"
    using close_registered [OF assms(2) assms(1)] by simp
next
  assume "acknowledgedSnapshotPriority p < priority signedSnapshot"
  then show "\<exists>s' p'. handle_msg_Leader env cr signedSnapshot s = Inr s' \<and>
                 connections s' cr = Some p' \<and>
                 acknowledgedSnapshotPriority p' = priority signedSnapshot \<and>
                 theirSnapshotPriority p' = max (theirSnapshotPriority p) (priority signedSnapshot) \<and>
                 effects s' = effects s @ [AsyncSetSignedCheckpoint signedSnapshot] \<and>
                 conn s' = conn s"
    using assms by (auto simp add: handle_msg_Leader_def Let_def max_def)
qed

lemma connect_scheduled_frame:
  "conn (connect_scheduled env s) = conn s"
  "connections (connect_scheduled env s) = connections s"
  "activeRequests (connect_scheduled env s) = activeRequests s"
  "maxRequests (connect_scheduled env s) = maxRequests s"
  by (simp_all add: connect_scheduled_def split: prod.splits)

lemma connect_scheduled_effects:
  "\<exists>as. effects (connect_scheduled env s) = effects s @ map AsyncConnect as"
  by (cases "pop_connect env (sync s)") (auto simp add: connect_scheduled_def)

lemma process_messages_error_after:
  assumes "handled_all env cr pre s = Some s1"
    and "dispatch_message env cr msg s1 = Inl (e, s2)"
  shows "process_messages env cr (pre @ msg # post) s = do_requests env (close env cr e s2)"
  using assms
proof (induction pre arbitrary: s)
  case Nil
  then show ?case by simp
next
  case (Cons m ms)
  then show ?case by (auto split: sum.splits if_splits)
qed

lemma process_connection_fresh:
  fixes env :: "('p::linorder, 'x) collaborators"
  assumes "\<not> eventloop_registered (conn s cr)" "\<not> eventloop_erased (conn s cr)"
    and "registry_insert env cr (sync s) = (Inr p0, x)"
  shows "\<exists>s0 p1 as. process_connection env cr msgs s = process_messages env cr msgs s0 \<and>
           connections s0 cr = Some p1 \<and> awaiting_init (job p1) \<and>
           eventloop_registered (conn s0 cr) \<and> \<not> eventloop_erased (conn s0 cr) \<and>
           effects s0 = effects s @ map AsyncConnect as @ [AsyncSend cr InitSnd]"
proof -
  let ?s1 = "s\<lparr>conn := (conn s)(cr := (conn s cr)\<lparr>eventloop_registered := True\<rparr>)\<rparr>"
  obtain t tm where ti: "timer_insert (now ?s1 + 30000) (CloseNoReply cr) (timer ?s1) = (t, tm)"
    by (cases "timer_insert (now ?s1 + 30000) (CloseNoReply cr) (timer ?s1)")
  let ?p1 = "p0\<lparr>job := AwaitInit, job_timer := Some t\<rparr>"
  let ?s2 = "?s1\<lparr>sync := x, timer := tm, connections := (connections ?s1)(cr \<mapsto> ?p1)\<rparr>"
  let ?s3 = "connect_scheduled env (update_wakeup env ?s2)"
  let ?s0 = "Conref_send cr InitSnd ?s3"
  have pc: "process_connection env cr msgs s = process_messages env cr msgs ?s0"
    using assms ti by (simp add: process_connection_def Let_def)
  obtain as where as: "effects ?s3 = effects s @ map AsyncConnect as"
    using connect_scheduled_effects [of env "update_wakeup env ?s2"]
    by (auto simp add: update_wakeup_frame)
  have ne: "\<not> eventloop_erased (conn ?s3 cr)"
    using assms(2) by (simp add: connect_scheduled_frame update_wakeup_frame)
  have "connections ?s0 cr = Some ?p1"
    by (simp add: Conref_send_def connect_scheduled_frame update_wakeup_frame)
  moreover have "awaiting_init (job ?p1)" by (simp add: awaiting_init_def)
  moreover have "eventloop_registered (conn ?s0 cr)" "\<not> eventloop_erased (conn ?s0 cr)"
    using assms(2) by (simp_all add: Conref_send_def connect_scheduled_frame update_wakeup_frame)
  moreover have "effects ?s0 = effects s @ map AsyncConnect as @ [AsyncSend cr InitSnd]"
    using ne as by (simp add: Conref_send_def)
  ultimately show ?thesis using pc by blast
qed

lemma process_connection_rejected:
  fixes env :: "('p::linorder, 'x) collaborators"
  assumes "\<not> eventloop_registered (conn s cr)" "\<not> eventloop_erased (conn s cr)"
    and "registry_insert env cr (sync s) = (Inl e, x)"
  shows "\<exists>as. effects (process_connection env cr msgs s) =
                 effects s @ map AsyncConnect as @ [AsyncClose cr e]"
    and "eventloop_erased (conn (process_connection env cr msgs s) cr)"
proof -
  let ?s1 = "s\<lparr>conn := (conn s)(cr := (conn s cr)\<lparr>eventloop_registered := True\<rparr>)\<rparr>"
  let ?s2 = "connect_scheduled env (update_wakeup env (?s1\<lparr>sync := x\<rparr>))"
  have pc: "process_connection env cr msgs s =
              ?s2\<lparr>effects := effects ?s2 @ [AsyncClose cr e],
                   conn := (conn ?s2)(cr := (conn ?s2 cr)\<lparr>eventloop_erased := True\<rparr>)\<rparr>"
    using assms by (simp add: process_connection_def Let_def)
  obtain as where as: "effects ?s2 = effects s @ map AsyncConnect as"
    using connect_scheduled_effects [of env "update_wakeup env (?s1\<lparr>sync := x\<rparr>)"]
    by (auto simp add: update_wakeup_frame)
  show "\<exists>as. effects (process_connection env cr msgs s) =
                 effects s @ map AsyncConnect as @ [AsyncClose cr e]"
    using as by (simp add: pc) blast
  show "eventloop_erased (conn (process_connection env cr msgs s) cr)"
    by (simp add: pc)
qed


text \<open>
  C2: a buffer whose checksum fails raises ECHECKSUM; with a good checksum, a parsed
  message other than Init raises ENOINIT while the peer awaits its init message, and a
  parsed Init raises EINVINIT afterwards. This holds for every buffer of the list that
  process_connection handles: when the buffers before it were handled without an error
  and without erasing the connection, an error raised for it ends the loop over the
  buffers, the peer is closed with that code (async_close is called with it and the
  connection is erased, for a registered peer), do_requests is called and
  process_connection returns; the buffers after it are not handled. A registered
  connection goes straight to that loop; a fresh connection that the registry admits
  enters it awaiting its init message, after the init message was sent to it; one that
  the registry rejects is closed with the registry's error. The event handler of the
  loop returns in each case.
\<close>

theorem dispatch_message_sequencing:
  fixes env :: "('p::linorder, 'x) collaborators"
  shows "(\<not> verify msg \<longrightarrow> dispatch_message env cr msg s = Inl (ECHECKSUM, s)) \<and>
         (\<forall>p m. connections s cr = Some p \<and> verify msg \<and> parse msg = Inr m \<and>
                awaiting_init (job p) \<and> \<not> holds_InitMsg m \<longrightarrow>
            dispatch_message env cr msg s = Inl (ENOINIT, s)) \<and>
         (\<forall>p m. connections s cr = Some p \<and> verify msg \<and> parse msg = Inr m \<and>
                \<not> awaiting_init (job p) \<and> holds_InitMsg m \<longrightarrow>
            dispatch_message env cr msg s = Inl (EINVINIT, s)) \<and>
         (\<forall>s0 s1 e. handled_all env cr pre s0 = Some s \<and>
                   dispatch_message env cr msg s = Inl (e, s1) \<longrightarrow>
            process_messages env cr (pre @ msg # post) s0 = do_requests env (close env cr e s1) \<and>
            (eventloop_registered (conn s1 cr) \<and> cr \<in> dom (connections s1) \<longrightarrow>
               effects (close env cr e s1) = effects s1 @ [AsyncClose cr e] \<and>
               eventloop_erased (conn (close env cr e s1) cr))) \<and>
         (eventloop_registered (conn s cr) \<and> \<not> eventloop_erased (conn s cr) \<longrightarrow>
            process_connection env cr msgs s = process_messages env cr msgs s) \<and>
         (\<not> eventloop_registered (conn s cr) \<and> \<not> eventloop_erased (conn s cr) \<longrightarrow>
            (\<forall>p0 x. registry_insert env cr (sync s) = (Inr p0, x) \<longrightarrow>
               (\<exists>s0 p1 as. process_connection env cr msgs s = process_messages env cr msgs s0 \<and>
                  connections s0 cr = Some p1 \<and> awaiting_init (job p1) \<and>
                  eventloop_registered (conn s0 cr) \<and> \<not> eventloop_erased (conn s0 cr) \<and>
                  effects s0 = effects s @ map AsyncConnect as @ [AsyncSend cr InitSnd])) \<and>
            (\<forall>e x. registry_insert env cr (sync s) = (Inl e, x) \<longrightarrow>
               (\<exists>as. effects (process_connection env cr msgs s) =
                        effects s @ map AsyncConnect as @ [AsyncClose cr e]) \<and>
               eventloop_erased (conn (process_connection env cr msgs s) cr))) \<and>
         handle_event env (OnProcessConnection cr msgs) s = Inr (process_connection env cr msgs s)"
proof (intro conjI impI allI)
  show "handle_event env (OnProcessConnection cr msgs) s = Inr (process_connection env cr msgs s)"
    by (simp add: handle_event_def)
next
  assume "\<not> verify msg"
  then show "dispatch_message env cr msg s = Inl (ECHECKSUM, s)"
    by (simp add: dispatch_message_def)
next
  fix p m
  assume "connections s cr = Some p \<and> verify msg \<and> parse msg = Inr m \<and>
          awaiting_init (job p) \<and> \<not> holds_InitMsg m"
  then show "dispatch_message env cr msg s = Inl (ENOINIT, s)"
    by (simp add: dispatch_message_def)
next
  fix p m
  assume "connections s cr = Some p \<and> verify msg \<and> parse msg = Inr m \<and>
          \<not> awaiting_init (job p) \<and> holds_InitMsg m"
  then show "dispatch_message env cr msg s = Inl (EINVINIT, s)"
    by (simp add: dispatch_message_def)
next
  fix s0 s1 e
  assume "handled_all env cr pre s0 = Some s \<and> dispatch_message env cr msg s = Inl (e, s1)"
  then show "process_messages env cr (pre @ msg # post) s0 = do_requests env (close env cr e s1)"
    by (simp add: process_messages_error_after)
next
  fix s0 s1 e
  assume "handled_all env cr pre s0 = Some s \<and> dispatch_message env cr msg s = Inl (e, s1)"
    and "eventloop_registered (conn s1 cr) \<and> cr \<in> dom (connections s1)"
  then obtain p where r: "eventloop_registered (conn s1 cr)" and p: "connections s1 cr = Some p"
    by auto
  show "effects (close env cr e s1) = effects s1 @ [AsyncClose cr e]"
    by (rule close_registered(1) [OF r p])
  show "eventloop_erased (conn (close env cr e s1) cr)"
    by (rule close_registered(2) [OF r p])
next
  assume "eventloop_registered (conn s cr) \<and> \<not> eventloop_erased (conn s cr)"
  then show "process_connection env cr msgs s = process_messages env cr msgs s"
    by (simp add: process_connection_def)
next
  fix p0 x
  assume "\<not> eventloop_registered (conn s cr) \<and> \<not> eventloop_erased (conn s cr)"
    and "registry_insert env cr (sync s) = (Inr p0, x)"
  then show "\<exists>s0 p1 as. process_connection env cr msgs s = process_messages env cr msgs s0 \<and>
                  connections s0 cr = Some p1 \<and> awaiting_init (job p1) \<and>
                  eventloop_registered (conn s0 cr) \<and> \<not> eventloop_erased (conn s0 cr) \<and>
                  effects s0 = effects s @ map AsyncConnect as @ [AsyncSend cr InitSnd]"
    using process_connection_fresh [of s cr env p0 x msgs] by blast
next
  fix e x
  assume a: "\<not> eventloop_registered (conn s cr) \<and> \<not> eventloop_erased (conn s cr)"
    and b: "registry_insert env cr (sync s) = (Inl e, x)"
  show "\<exists>as. effects (process_connection env cr msgs s) =
                        effects s @ map AsyncConnect as @ [AsyncClose cr e]"
    using process_connection_rejected(1) [of s cr env e x msgs] a b by blast
  show "eventloop_erased (conn (process_connection env cr msgs s) cr)"
    using process_connection_rejected(2) [of s cr env e x msgs] a b by blast
qed


lemma update_wakeup_env_hd_on_response:
  "update_wakeup (env\<lparr>hd_on_response := f\<rparr>) s = update_wakeup env s"
  by (simp add: update_wakeup_def)

lemma coordinate_sync_env_hd_on_response:
  "coordinate_sync (env\<lparr>hd_on_response := f\<rparr>) s = coordinate_sync env s"
  by (simp add: coordinate_sync_def)

lemma close_env_hd_on_response:
  "close (env\<lparr>hd_on_response := f\<rparr>) cr e s = close env cr e s"
  by (simp add: close_def erase_def Let_def update_wakeup_env_hd_on_response
        coordinate_sync_env_hd_on_response split: option.splits prod.splits)

lemma close_offender_env_hd_on_response:
  "close_offender (env\<lparr>hd_on_response := f\<rparr>) off s = close_offender env off s"
  by (simp add: close_offender_def close_env_hd_on_response split: option.splits)

lemma unref_job_dom: "c \<in> dom (connections s) \<Longrightarrow> c \<in> dom (connections (unref_job c' s))"
  by (auto simp add: unref_job_def split: option.splits prod.splits)

lemma erase_keeps:
  "eventloop_registered (conn (erase env cr e s) c) = eventloop_registered (conn s c)"
  "eventloop_erased (conn s c) \<Longrightarrow> eventloop_erased (conn (erase env cr e s) c)"
  "c \<in> dom (connections s) \<Longrightarrow> c \<in> dom (connections (erase env cr e s))"
proof -
  show "eventloop_registered (conn (erase env cr e s) c) = eventloop_registered (conn s c)"
  proof (cases "connections s cr")
    case None then show ?thesis by (simp add: erase_def)
  next
    case (Some p)
    show ?thesis
    proof (cases "eventloop_erased (conn s cr)")
      case True then show ?thesis using Some by (simp add: erase_def)
    next
      case False
      from erase_frame(2) [OF Some False] show ?thesis
        by (simp add: erase_core_def unref_job_frame)
    qed
  qed
  show "eventloop_erased (conn s c) \<Longrightarrow> eventloop_erased (conn (erase env cr e s) c)"
  proof (cases "connections s cr")
    case None then show "eventloop_erased (conn s c) \<Longrightarrow> ?thesis" by (simp add: erase_def)
  next
    case (Some p)
    assume a: "eventloop_erased (conn s c)"
    show ?thesis
    proof (cases "eventloop_erased (conn s cr)")
      case True then show ?thesis using Some a by (simp add: erase_def)
    next
      case False
      from erase_frame(2) [OF Some False] show ?thesis using a
        by (simp add: erase_core_def unref_job_frame)
    qed
  qed
  show "c \<in> dom (connections s) \<Longrightarrow> c \<in> dom (connections (erase env cr e s))"
  proof (cases "connections s cr")
    case None then show "c \<in> dom (connections s) \<Longrightarrow> ?thesis" by (simp add: erase_def)
  next
    case (Some p)
    assume a: "c \<in> dom (connections s)"
    show ?thesis
    proof (cases "eventloop_erased (conn s cr)")
      case True then show ?thesis using Some a by (simp add: erase_def)
    next
      case False
      from erase_frame(3) [OF Some False] show ?thesis using a
        by (simp add: erase_core_def unref_job_dom)
    qed
  qed
qed

lemma close_keeps:
  "eventloop_registered (conn (close env cr e s) c) = eventloop_registered (conn s c)"
  "eventloop_erased (conn s c) \<Longrightarrow> eventloop_erased (conn (close env cr e s) c)"
  "c \<in> dom (connections s) \<Longrightarrow> c \<in> dom (connections (close env cr e s))"
  by (simp_all add: close_def erase_keeps)

lemma close_offender_keeps:
  "eventloop_registered (conn (close_offender env off s) c) = eventloop_registered (conn s c)"
  "eventloop_erased (conn s c) \<Longrightarrow> eventloop_erased (conn (close_offender env off s) c)"
  "c \<in> dom (connections s) \<Longrightarrow> c \<in> dom (connections (close_offender env off s))"
  by (simp_all add: close_offender_def close_keeps split: option.splits)

lemma close_offender_erases:
  assumes "eventloop_registered (conn s (offender_conId off))"
    and "offender_conId off \<in> dom (connections s)"
  shows "eventloop_erased (conn (close_offender env off s) (offender_conId off))"
proof (cases "eventloop_erased (conn s (offender_conId off))")
  case True
  then show ?thesis by (simp add: close_offender_keeps)
next
  case False
  obtain p where p: "connections s (offender_conId off) = Some p" using assms(2) by auto
  with False have "connections_find (offender_conId off) s = Some p"
    by (simp add: connections_find_def)
  then show ?thesis using close_registered(2) [OF assms(1) p]
    by (simp add: close_offender_def)
qed

lemma fold_close_offender_keeps:
  "eventloop_registered (conn (fold (close_offender env) offs s) c) = eventloop_registered (conn s c)"
  "eventloop_erased (conn s c) \<Longrightarrow> eventloop_erased (conn (fold (close_offender env) offs s) c)"
  "c \<in> dom (connections s) \<Longrightarrow> c \<in> dom (connections (fold (close_offender env) offs s))"
  by (induction offs arbitrary: s) (simp_all add: close_offender_keeps)

lemma fold_close_offender_erases:
  assumes "off \<in> set offs"
    and "eventloop_registered (conn s (offender_conId off))"
    and "offender_conId off \<in> dom (connections s)"
  shows "eventloop_erased (conn (fold (close_offender env) offs s) (offender_conId off))"
  using assms
proof (induction offs arbitrary: s)
  case Nil
  then show ?case by simp
next
  case (Cons a offs)
  show ?case
  proof (cases "a = off")
    case True
    have "eventloop_erased (conn (close_offender env off s) (offender_conId off))"
      using Cons.prems by (simp add: close_offender_erases)
    then show ?thesis using True by (simp add: fold_close_offender_keeps)
  next
    case False
    then have "off \<in> set offs" using Cons.prems by simp
    then show ?thesis using Cons.prems Cons.IH [of "close_offender env a s"]
      by (simp add: close_offender_keeps)
  qed
qed

lemma active_peers_dom: "active_peers s \<subseteq> dom (connections s)"
  by (auto simp add: active_peers_def)

lemma requests_bounded_shrink:
  assumes "requests_bounded s"
    and "dom (connections s') = dom (connections s)"
    and "active_peers s' \<subseteq> active_peers s"
    and "activeRequests s' = activeRequests s"
    and "maxRequests s' = maxRequests s"
  shows "requests_bounded s'"
proof -
  have "finite (active_peers s)"
    using assms(1) active_peers_dom [of s] by (auto simp add: requests_bounded_def intro: finite_subset)
  then have "card (active_peers s') \<le> card (active_peers s)"
    using assms(3) by (simp add: card_mono)
  then show ?thesis using assms by (simp add: requests_bounded_def)
qed

lemma word_dec: "(a::64 word) \<noteq> 0 \<Longrightarrow> unat (a - 1) = unat a - 1 \<and> a - 1 \<le> a"
  by unat_arith


lemma finite_active_peers: "requests_bounded s \<Longrightarrow> finite (active_peers s)"
  using active_peers_dom [of s] by (auto simp add: requests_bounded_def intro: finite_subset)

lemma unref_job_inactive:
  assumes "c \<notin> active_peers s"
  shows "dom (connections (unref_job c s)) = dom (connections s)"
    and "active_peers (unref_job c s) = active_peers s"
    and "activeRequests (unref_job c s) = activeRequests s"
  using assms
  by (auto simp add: unref_job_def unref_active_requests_def active_peers_def
        split: option.splits job.splits if_splits)

lemma unref_job_active:
  assumes "c \<in> active_peers s"
  shows "dom (connections (unref_job c s)) = dom (connections s)"
    and "active_peers (unref_job c s) = active_peers s - {c}"
    and "activeRequests (unref_job c s) = activeRequests s - 1"
  using assms
  by (auto simp add: unref_job_def unref_active_requests_def active_peers_def
        split: option.splits job.splits if_splits)

lemma unref_job_bounded:
  assumes "requests_bounded s"
  shows "requests_bounded (unref_job c s)"
proof (cases "c \<in> active_peers s")
  case False
  from unref_job_inactive [OF False] assms show ?thesis
    by (simp add: requests_bounded_def unref_job_frame)
next
  case True
  have fin: "finite (active_peers s)" using assms by (rule finite_active_peers)
  then have "0 < card (active_peers s)" using True by (auto simp add: card_gt_0_iff)
  then have pos: "0 < unat (activeRequests s)" using assms by (simp add: requests_bounded_def)
  then have nz: "activeRequests s \<noteq> 0" by (auto simp add: unat_gt_0)
  have card: "card (active_peers s - {c}) = card (active_peers s) - 1"
    using fin True by simp
  have "activeRequests s - 1 \<le> maxRequests s"
    using word_dec [OF nz] assms by (auto simp add: requests_bounded_def)
  moreover have "card (active_peers s) - 1 \<le> unat (activeRequests s) - 1"
    using assms by (simp add: requests_bounded_def diff_le_mono)
  ultimately show ?thesis
    using unref_job_active [OF True] assms word_dec [OF nz] card
    by (simp add: requests_bounded_def unref_job_frame)
qed




lemma restart_expired_unref_bounded:
  assumes "requests_bounded s"
  shows "requests_bounded (restart_expired_unref env c s)"
proof (cases "connections s c")
  case None
  then show ?thesis using assms by (simp add: restart_expired_unref_def)
next
  case (Some p)
  obtain t tm where ti: "timer_insert (now s + (if localDebug env then 600000 else 120000))
                  (CloseNoReply c) (timer s) = (t, tm)" by (cases "timer_insert (now s + (if localDebug env then 600000 else 120000))
                  (CloseNoReply c) (timer s)")
  let ?s = "s\<lparr>timer := tm, connections := (connections s)(c \<mapsto> p\<lparr>job_timer := Some t\<rparr>)\<rparr>"
  have d: "dom (connections ?s) = dom (connections s)" using Some by auto
  have a: "active_peers ?s \<subseteq> active_peers s"
    using Some by (auto simp add: active_peers_def split: if_splits)
  have "requests_bounded ?s"
    by (rule requests_bounded_shrink [OF assms d a]) simp_all
  then have "requests_bounded (unref_job c ?s)" by (rule unref_job_bounded)
  then show ?thesis using Some ti by (simp add: restart_expired_unref_def)
qed



lemma takeWhile_sorted_filter:
  "sorted (map fst xs) \<Longrightarrow> takeWhile (\<lambda>e. fst e \<le> n) xs = filter (\<lambda>e. fst e \<le> (n::nat)) xs"
proof (induction xs)
  case Nil
  then show ?case by simp
next
  case (Cons x xs)
  show ?case
  proof (cases "fst x \<le> n")
    case True
    then show ?thesis using Cons by simp
  next
    case False
    then have "\<forall>e \<in> set xs. \<not> fst e \<le> n" using Cons.prems by auto
    then have "filter (\<lambda>e. fst e \<le> n) xs = []" by (simp add: filter_empty_conv)
    then show ?thesis using False by simp
  qed
qed

lemma pop_expired_sorted:
  "pop_expired n t =
     (sort_key fst (filter (\<lambda>e. fst e \<le> n) (entries t)),
      t\<lparr>entries := filter (\<lambda>e. \<not> fst e \<le> n) (entries t)\<rparr>)"
  by (simp add: pop_expired_def in_order_def takeWhile_sorted_filter filter_sort)

lemma dispatch_in_order_append:
  "dispatch_in_order env (xs @ ys) s =
     (case dispatch_in_order env xs s of Inl a \<Rightarrow> Inl a | Inr s' \<Rightarrow> dispatch_in_order env ys s')"
  by (induction env xs s rule: dispatch_in_order.induct) (simp_all split: sum.splits)

lemma run_all_timeouts:
  "run_all (handle_timeout env) evs s = dispatch_in_order env (map Timeout evs) s"
  by (induction evs arbitrary: s) (simp_all split: sum.splits)

lemma run_all_events:
  "run_all (handle_event env) es s = dispatch_in_order env (map Queued es) s"
  by (induction es arbitrary: s) (simp_all split: sum.splits)


text \<open>
  C6: one call of work handles the timer entries that have expired at that moment, those
  whose deadline is at most the clock reading, in deadline order (entries of equal
  deadline in insertion order), each by handle_timeout; after them it handles the queued
  events in the order of the queue, each by handle_event; a failed assertion ends the
  cycle. The entries that have not expired stay in the timer wheel and the queue is left
  empty.
\<close>

theorem work_timers_before_events:
  fixes env :: "('p::linorder, 'x) collaborators"
  shows "\<exists>expired remaining.
           expired = sort_key fst (filter (\<lambda>e. fst e \<le> now s) (entries (timer s))) \<and>
           remaining = filter (\<lambda>e. \<not> fst e \<le> now s) (entries (timer s)) \<and>
           sorted (map fst expired) \<and>
           work env (g, s) =
             (case dispatch_in_order env
                     (map (\<lambda>e. Timeout (snd (snd e))) expired @ map Queued (events g))
                     (s\<lparr>timer := timer s\<lparr>entries := remaining\<rparr>\<rparr>) of
                Inl a \<Rightarrow> Inl a
              | Inr s3 \<Rightarrow> Inr (g\<lparr>events := []\<rparr>, update_sync_state env (garbage_collect s3)))"
proof -
  show ?thesis
    by (simp add: work_def pop_expired_sorted run_all_timeouts run_all_events
          dispatch_in_order_append Let_def o_def split: sum.splits)
qed


lemma pop_req_frame:
  assumes "pop_req kind nonce c s = Inr (r, s1)"
  shows "effects s1 = effects s" and "conn s1 = conn s" and "sync s1 = sync s"
    and "dom (connections s1) = dom (connections s)" and "c \<in> dom (connections s)"
    and "kind (req_data r)" and "req_nonce r = nonce"
proof -
  obtain p where p: "connections s c = Some p"
    using assms by (auto simp add: pop_req_def split: option.splits)
  let ?s1 = "unref_job c s"
  let ?s2 = "?s1\<lparr>timer := cancel_opt (job_timer p) (timer ?s1)\<rparr>"
  have s1: "s1 = ?s2\<lparr>connections := (connections ?s2)(c \<mapsto> p\<lparr>job := NoJob, job_timer := None\<rparr>)\<rparr>"
    using assms p by (auto simp add: pop_req_def Let_def split: job.splits if_splits)
  show "effects s1 = effects s" "conn s1 = conn s" "sync s1 = sync s"
    by (simp_all add: s1 unref_job_frame)
  have "dom (connections ?s1) = dom (connections s)"
    using p by (auto simp add: unref_job_def split: option.splits prod.splits)
  then show "dom (connections s1) = dom (connections s)" using p by (auto simp add: s1)
  show "c \<in> dom (connections s)" using p by auto
  show "kind (req_data r)" "req_nonce r = nonce"
    using assms p by (auto simp add: pop_req_def Let_def split: job.splits if_splits)
qed

text \<open>
  C7: when a header-batch reply matches the peer's batch request and its size is below
  minReturn or above max_return, the peer is closed with EBATCHSIZE and the outcome does
  not depend on the header downloader's on_response, which is not called; otherwise the
  batch goes to on_response and every offender it reports that is registered with the
  loop is erased afterwards.
\<close>

theorem handle_msg_Batchrep_size_check:
  assumes "pop_req is_Batchrequest nonce cr s = Inr (req, s1)"
    and "eventloop_registered (conn s cr)"
    and "\<not> eventloop_erased (conn s cr)"
  shows "(length batch < minReturn (req_data req) \<or> max_return (req_data req) < length batch \<longrightarrow>
           (\<exists>s'. handle_msg_Batchrep env cr nonce batch s = Inr s' \<and>
                 effects s' = effects s @ [AsyncClose cr EBATCHSIZE] \<and>
                 eventloop_erased (conn s' cr) \<and>
                 (\<forall>f. handle_msg_Batchrep (env\<lparr>hd_on_response := f\<rparr>) cr nonce batch s = Inr s'))) \<and>
         (\<not> (length batch < minReturn (req_data req) \<or> max_return (req_data req) < length batch) \<longrightarrow>
           (\<exists>offenders x s3.
                 hd_on_response env cr req batch (sync s1) = (offenders, x) \<and>
                 s3 = fold (close_offender env) offenders (s1\<lparr>sync := x\<rparr>) \<and>
                 handle_msg_Batchrep env cr nonce batch s =
                   Inr (do_requests env (initialize_block_download env s3)) \<and>
                 (\<forall>off \<in> set offenders.
                    eventloop_registered (conn s (offender_conId off)) \<and>
                    offender_conId off \<in> dom (connections s) \<longrightarrow>
                    eventloop_erased (conn s3 (offender_conId off)))))"
proof (intro conjI impI)
  note fr = pop_req_frame [OF assms(1)]
  assume bad: "length batch < minReturn (req_data req) \<or> max_return (req_data req) < length batch"
  let ?off = "\<lparr>offence = EBATCHSIZE, offender_height = startHeight (req_data req), offender_conId = cr\<rparr>"
  obtain p1 where p1: "connections s1 cr = Some p1" using fr(4,5) by auto
  have reg: "eventloop_registered (conn s1 cr)" and ne: "\<not> eventloop_erased (conn s1 cr)"
    using assms fr(2) by simp_all
  have f: "connections_find cr s1 = Some p1" using p1 ne by (simp add: connections_find_def)
  have co: "close_offender env ?off s1 = close env cr EBATCHSIZE s1"
    using f by (simp add: close_offender_def)
  have h: "\<And>e. handle_msg_Batchrep e cr nonce batch s = Inr (close_offender e ?off s1)"
    using assms(1) bad by (auto simp add: handle_msg_Batchrep_def)
  have "handle_msg_Batchrep env cr nonce batch s = Inr (close env cr EBATCHSIZE s1)"
    using h [of env] co by simp
  moreover have "\<forall>f. handle_msg_Batchrep (env\<lparr>hd_on_response := f\<rparr>) cr nonce batch s =
                   Inr (close env cr EBATCHSIZE s1)"
    using h co by (simp add: close_offender_env_hd_on_response)
  ultimately show "\<exists>s'. handle_msg_Batchrep env cr nonce batch s = Inr s' \<and>
                 effects s' = effects s @ [AsyncClose cr EBATCHSIZE] \<and>
                 eventloop_erased (conn s' cr) \<and>
                 (\<forall>f. handle_msg_Batchrep (env\<lparr>hd_on_response := f\<rparr>) cr nonce batch s = Inr s')"
    using close_registered [OF reg p1, of env EBATCHSIZE] fr(1) by simp
next
  note fr = pop_req_frame [OF assms(1)]
  assume ok: "\<not> (length batch < minReturn (req_data req) \<or> max_return (req_data req) < length batch)"
  obtain offenders x where r: "hd_on_response env cr req batch (sync s1) = (offenders, x)"
    by (cases "hd_on_response env cr req batch (sync s1)")
  let ?s3 = "fold (close_offender env) offenders (s1\<lparr>sync := x\<rparr>)"
  have h: "handle_msg_Batchrep env cr nonce batch s =
             Inr (do_requests env (initialize_block_download env ?s3))"
    using assms(1) ok r by (simp add: handle_msg_Batchrep_def)
  have "\<forall>off \<in> set offenders.
          eventloop_registered (conn s (offender_conId off)) \<and>
          offender_conId off \<in> dom (connections s) \<longrightarrow>
          eventloop_erased (conn ?s3 (offender_conId off))"
  proof (intro ballI impI)
    fix off
    assume m: "off \<in> set offenders"
      and a: "eventloop_registered (conn s (offender_conId off)) \<and>
              offender_conId off \<in> dom (connections s)"
    have "eventloop_registered (conn (s1\<lparr>sync := x\<rparr>) (offender_conId off))"
      using a fr(2) by simp
    moreover have "offender_conId off \<in> dom (connections (s1\<lparr>sync := x\<rparr>))"
      using a fr(4) by simp
    ultimately show "eventloop_erased (conn ?s3 (offender_conId off))"
      using m by (rule fold_close_offender_erases [rotated])
  qed
  then show "\<exists>offenders x s3.
                 hd_on_response env cr req batch (sync s1) = (offenders, x) \<and>
                 s3 = fold (close_offender env) offenders (s1\<lparr>sync := x\<rparr>) \<and>
                 handle_msg_Batchrep env cr nonce batch s =
                   Inr (do_requests env (initialize_block_download env s3)) \<and>
                 (\<forall>off \<in> set offenders.
                    eventloop_registered (conn s (offender_conId off)) \<and>
                    offender_conId off \<in> dom (connections s) \<longrightarrow>
                    eventloop_erased (conn s3 (offender_conId off)))"
    using r h by blast
qed


























































theorem handle_msg_Leader_priority_witness:
  "(\<exists>s'. handle_msg_Leader example_env 7 \<lparr>priority = 3, signed_data = []\<rparr> example_loop = Inr s' \<and>
         effects s' = [AsyncClose 7 ELOWPRIORITY] \<and> eventloop_erased (conn s' 7)) \<and>
   (\<exists>s' p'. handle_msg_Leader example_env 7 \<lparr>priority = 4, signed_data = []\<rparr> example_loop = Inr s' \<and>
         connections s' 7 = Some p' \<and> acknowledgedSnapshotPriority p' = 4 \<and>
         theirSnapshotPriority p' = 4 \<and>
         effects s' = [AsyncSetSignedCheckpoint \<lparr>priority = 4, signed_data = []\<rparr>])"
proof -
  have c: "connections example_loop 7 = Some example_peer" by (simp add: example_loop_def)
  have r: "eventloop_registered (conn example_loop 7)" by (simp add: example_loop_def)
  have e: "effects example_loop = []" by (simp add: example_loop_def)
  show ?thesis
    using handle_msg_Leader_priority [OF c r, where signedSnapshot = "\<lparr>priority = 3, signed_data = []\<rparr>"
             and env = example_env]
          handle_msg_Leader_priority [OF c r, where signedSnapshot = "\<lparr>priority = 4, signed_data = []\<rparr>"
             and env = example_env]
    by (simp add: example_peer_def e) blast
qed

theorem dispatch_message_sequencing_witness:
  "dispatch_message example_env 7 \<lparr>verify = False, parse = Inr (InitMsg [])\<rparr> example_loop =
     Inl (ECHECKSUM, example_loop) \<and>
   (\<exists>s1. handled_all example_env 7 [\<lparr>verify = True, parse = Inr (BlockreqMsg 4 1 2)\<rparr>] example_loop =
            Some s1 \<and>
         dispatch_message example_env 7 \<lparr>verify = True, parse = Inr (InitMsg [])\<rparr> s1 =
            Inl (EINVINIT, s1) \<and>
         process_connection example_env 7
            [\<lparr>verify = True, parse = Inr (BlockreqMsg 4 1 2)\<rparr>,
             \<lparr>verify = True, parse = Inr (InitMsg [])\<rparr>,
             \<lparr>verify = True, parse = Inr (PingMsg [])\<rparr>] example_loop =
            do_requests example_env (close example_env 7 EINVINIT s1) \<and>
         effects (close example_env 7 EINVINIT s1) = [AsyncGetBlocks 7 1 2, AsyncClose 7 EINVINIT] \<and>
         eventloop_erased (conn (close example_env 7 EINVINIT s1) 7)) \<and>
   (\<exists>s0 as. process_connection example_env 8 [\<lparr>verify = True, parse = Inr (PingMsg [])\<rparr>]
              example_loop =
            do_requests example_env (close example_env 8 ENOINIT s0) \<and>
         effects (close example_env 8 ENOINIT s0) =
            map AsyncConnect as @ [AsyncSend 8 InitSnd, AsyncClose 8 ENOINIT] \<and>
         eventloop_erased (conn (close example_env 8 ENOINIT s0) 8))"
proof -
  let ?bad = "\<lparr>verify = False, parse = Inr (InitMsg [] :: nat message)\<rparr>"
  let ?blockreq = "\<lparr>verify = True, parse = Inr (BlockreqMsg 4 1 2 :: nat message)\<rparr>"
  let ?init = "\<lparr>verify = True, parse = Inr (InitMsg [] :: nat message)\<rparr>"
  let ?ping = "\<lparr>verify = True, parse = Inr (PingMsg [] :: nat message)\<rparr>"
  let ?s1 = "example_loop\<lparr>connections := [7 \<mapsto> example_peer\<lparr>lastNonce := 4\<rparr>],
                           effects := [AsyncGetBlocks 7 1 2]\<rparr>"
  note at_loop = dispatch_message_sequencing [where env = example_env and cr = 7 and s = example_loop
            and msg = ?bad and msgs = "[?blockreq, ?init, ?ping]"]
  note at_s1 = dispatch_message_sequencing [where env = example_env and cr = 7 and s = ?s1
            and msg = ?init and pre = "[?blockreq]" and post = "[?ping]"]
  note at_fresh = dispatch_message_sequencing [where env = example_env and cr = 8 and s = example_loop
            and msgs = "[?ping]"]
  have a: "dispatch_message example_env 7 ?bad example_loop = Inl (ECHECKSUM, example_loop)"
    using at_loop [THEN conjunct1] by simp
  have h: "handled_all example_env 7 [?blockreq] example_loop = Some ?s1"
    by (simp add: dispatch_message_def awaiting_init_def holds_InitMsg_def handle_msg_def
          handle_msg_Blockreq_def example_loop_def example_peer_def)
  have c1: "connections ?s1 7 = Some (example_peer\<lparr>lastNonce := 4\<rparr>)" by simp
  have r1: "eventloop_registered (conn ?s1 7)" "\<not> eventloop_erased (conn example_loop 7)"
    "eventloop_registered (conn example_loop 7)" "7 \<in> dom (connections ?s1)"
    by (simp_all add: example_loop_def)
  have i1: "\<not> awaiting_init (job (example_peer\<lparr>lastNonce := 4\<rparr>))" "holds_InitMsg (InitMsg [] :: nat message)"
    by (simp_all add: awaiting_init_def holds_InitMsg_def example_peer_def)
  have d: "dispatch_message example_env 7 ?init ?s1 = Inl (EINVINIT, ?s1)"
    using at_s1 [THEN conjunct2, THEN conjunct2, THEN conjunct1, THEN spec, THEN spec, THEN mp,
              of "example_peer\<lparr>lastNonce := 4\<rparr>" "InitMsg []"] c1 i1
    by simp
  note after = at_s1 [THEN conjunct2, THEN conjunct2, THEN conjunct2, THEN conjunct1,
                       THEN spec, THEN spec, THEN spec, THEN mp, OF conjI [OF h d]]
  have pm: "process_messages example_env 7 [?blockreq, ?init, ?ping] example_loop =
              do_requests example_env (close example_env 7 EINVINIT ?s1)"
    using after [THEN conjunct1] by simp
  have ef: "effects (close example_env 7 EINVINIT ?s1) = [AsyncGetBlocks 7 1 2, AsyncClose 7 EINVINIT]"
    and er: "eventloop_erased (conn (close example_env 7 EINVINIT ?s1) 7)"
    using after [THEN conjunct2, THEN mp, OF conjI [OF r1(1) r1(4)]] by simp_all
  have pc: "process_connection example_env 7 [?blockreq, ?init, ?ping] example_loop =
              process_messages example_env 7 [?blockreq, ?init, ?ping] example_loop"
    using at_loop [THEN conjunct2, THEN conjunct2, THEN conjunct2, THEN conjunct2, THEN conjunct1,
             THEN mp, OF conjI [OF r1(3) r1(2)]] .
  have b: "\<exists>s1. handled_all example_env 7 [?blockreq] example_loop = Some s1 \<and>
         dispatch_message example_env 7 ?init s1 = Inl (EINVINIT, s1) \<and>
         process_connection example_env 7 [?blockreq, ?init, ?ping] example_loop =
            do_requests example_env (close example_env 7 EINVINIT s1) \<and>
         effects (close example_env 7 EINVINIT s1) = [AsyncGetBlocks 7 1 2, AsyncClose 7 EINVINIT] \<and>
         eventloop_erased (conn (close example_env 7 EINVINIT s1) 7)"
    using h d pm ef er pc by (intro exI [of _ ?s1]) simp
  have n8: "\<not> eventloop_registered (conn example_loop 8)" "\<not> eventloop_erased (conn example_loop 8)"
    and ri: "registry_insert example_env 8 (sync example_loop) = (Inr example_peer, ())"
    and e0: "effects example_loop = []"
    by (simp_all add: example_loop_def example_env_def)
  from at_fresh [THEN conjunct2, THEN conjunct2, THEN conjunct2, THEN conjunct2, THEN conjunct2,
         THEN conjunct1, THEN mp, OF conjI [OF n8(1) n8(2)], THEN conjunct1, THEN spec, THEN spec, THEN mp, OF ri]
  obtain s0 p1 as where f: "process_connection example_env 8 [?ping] example_loop =
                                process_messages example_env 8 [?ping] s0"
      "connections s0 8 = Some p1" "awaiting_init (job p1)"
      "eventloop_registered (conn s0 8)"
      "effects s0 = effects example_loop @ map AsyncConnect as @ [AsyncSend 8 InitSnd]"
    by (elim exE conjE)
  note at_s0 = dispatch_message_sequencing [where env = example_env and cr = 8 and s = s0
            and msg = ?ping and pre = "[]" and post = "[]"]
  have i0: "\<not> holds_InitMsg (PingMsg [] :: nat message)" by (simp add: holds_InitMsg_def)
  have d0: "dispatch_message example_env 8 ?ping s0 = Inl (ENOINIT, s0)"
    using at_s0 [THEN conjunct2, THEN conjunct1, THEN spec, THEN spec, THEN mp, of p1 "PingMsg []"]
      f(2,3) i0
    by simp
  have h0: "handled_all example_env 8 [] s0 = Some s0" by simp
  note after0 = at_s0 [THEN conjunct2, THEN conjunct2, THEN conjunct2, THEN conjunct1,
                       THEN spec, THEN spec, THEN spec, THEN mp, OF conjI [OF h0 d0]]
  have dm: "8 \<in> dom (connections s0)" using f(2) by auto
  have pm0: "process_messages example_env 8 [?ping] s0 =
              do_requests example_env (close example_env 8 ENOINIT s0)"
    using after0 [THEN conjunct1] by simp
  have ef0: "effects (close example_env 8 ENOINIT s0) = effects s0 @ [AsyncClose 8 ENOINIT]"
    and er0: "eventloop_erased (conn (close example_env 8 ENOINIT s0) 8)"
    using after0 [THEN conjunct2, THEN mp, OF conjI [OF f(4) dm]] by simp_all
  have c: "\<exists>s0 as. process_connection example_env 8 [?ping] example_loop =
            do_requests example_env (close example_env 8 ENOINIT s0) \<and>
         effects (close example_env 8 ENOINIT s0) =
            map AsyncConnect as @ [AsyncSend 8 InitSnd, AsyncClose 8 ENOINIT] \<and>
         eventloop_erased (conn (close example_env 8 ENOINIT s0) 8)"
    using f(1,5) e0 pm0 ef0 er0 by (intro exI [of _ s0] exI [of _ as]) simp
  show ?thesis using a b c by (intro conjI)
qed

theorem handle_msg_Batchrep_size_check_witness:
  "(\<exists>s'. handle_msg_Batchrep example_env 7 9 [] example_loop = Inr s' \<and>
         effects s' = [AsyncClose 7 EBATCHSIZE] \<and> eventloop_erased (conn s' 7)) \<and>
   (\<exists>s3. handle_msg_Batchrep example_env 7 9 [[], []] example_loop =
            Inr (do_requests example_env (initialize_block_download example_env s3)))"
proof -
  obtain s1 where p: "pop_req is_Batchrequest 9 7 example_loop = Inr (example_request, s1)"
    by (simp add: pop_req_def example_loop_def example_peer_def example_request_def
          is_Batchrequest_def Let_def)
  have r: "eventloop_registered (conn example_loop 7)" by (simp add: example_loop_def)
  have n: "\<not> eventloop_erased (conn example_loop 7)" by (simp add: example_loop_def)
  have e: "effects example_loop = []" by (simp add: example_loop_def)
  show ?thesis
    using handle_msg_Batchrep_size_check [OF p r n, where batch = "[]" and env = example_env]
          handle_msg_Batchrep_size_check [OF p r n, where batch = "[[], []]" and env = example_env]
    by (simp add: example_request_def e) blast
qed

theorem work_timers_before_events_witness:
  "\<exists>s'. work example_env (example_queue, example_timers) = Inr (example_queue\<lparr>events := []\<rparr>, s') \<and>
        effects s' = [AsyncSend 7 PingSnd, AsyncSend 7 (BlockrepSnd 5 []),
                      AsyncGetBlocks 7 1 2, AsyncClose 7 ECHECKSUM] \<and>
        entries (timer s') = [(9000, 1, Connect)]"
  using work_timers_before_events [where env = example_env and g = example_queue and s = example_timers]
  by (simp add: Let_def
        handle_timeout_def timer_conId_def connections_find_def
        handle_connection_timeout_def send_ping_await_pong_def timer_insert_def Conref_send_def
        reset_timer_get_buf_def update_timer_def
        handle_event_def process_connection_def dispatch_message_def awaiting_init_def
        holds_InitMsg_def handle_msg_def handle_msg_Blockreq_def close_def erase_def
        unref_job_def unref_active_requests_def cancel_opt_def timer_cancel_def
        coordinate_sync_def update_wakeup_def garbage_collect_def
        example_timers_def example_queue_def example_loop_def example_peer_def example_request_def
        example_env_def)

section \<open>Results about throttled block replies\<close>

lemma timer_insert_armed:
  "timer_insert d ev t = (h, t') \<Longrightarrow> (d, h, ev) \<in> set (entries t')"
  by (auto simp add: timer_insert_def)













section \<open>Results about TargetV1\<close>

lemma all_zero_from_iff:
  "all_zero_from f i n \<longleftrightarrow> (\<forall>j. i \<le> j \<and> j < n \<longrightarrow> f j = 0)"
proof (induction f i n rule: all_zero_from.induct)
  case (1 f i n)
  show ?case
  proof (cases "i < n")
    case False
    then show ?thesis by (auto simp add: all_zero_from.simps [of f i n])
  next
    case True
    show ?thesis
    proof (cases "f i = 0")
      case False
      then show ?thesis using True by (auto simp add: all_zero_from.simps [of f i n])
    next
      case z: True
      have "all_zero_from f i n = all_zero_from f (Suc i) n"
        using True z by (simp add: all_zero_from.simps [of f i n])
      also have "\<dots> = (\<forall>j. Suc i \<le> j \<and> j < n \<longrightarrow> f j = 0)"
        using 1 True z by simp
      also have "\<dots> = (\<forall>j. i \<le> j \<and> j < n \<longrightarrow> f j = 0)"
        using z by (metis Suc_leI le_neq_implies_less Suc_leD)
      finally show ?thesis .
    qed
  qed
qed

lemma le_value_append: "le_value (xs @ ys) = le_value xs + 256 ^ length xs * le_value ys"
  by (induction xs) (simp_all add: algebra_simps)

lemma le_value_bound: "le_value xs < 256 ^ length xs"
proof (induction xs)
  case Nil
  then show ?case by simp
next
  case (Cons b bs)
  have "unat b < 256" using unsigned_less [of b] by simp
  then show ?case using Cons by simp
qed

lemma le_value_zero_iff: "le_value xs = 0 \<longleftrightarrow> (\<forall>x \<in> set xs. x = 0)"
  by (induction xs) (auto simp add: unat_eq_0)



lemma unat_zeros8: "unat (zeros8 data) = unat data div 2 ^ 24"
  by (simp add: drop_bit_nat_def unat_drop_bit_eq zeros8_def)

lemma unat_bits24: "unat (bits24 data) = unat data mod 2 ^ 24"
proof -
  have "(0x00FFFFFF :: 32 word) = mask 24" by (simp add: mask_eq_exp_minus_1)
  then have "bits24 data = take_bit 24 data"
    by (simp add: bits24_def take_bit_eq_mask and.commute)
  then show ?thesis by (simp add: take_bit_eq_mod unat_mod)
qed

lemma unat_and_7: "unat ((w :: 32 word) AND 0x07) = unat w mod 8"
proof -
  have "(0x07 :: 32 word) = mask 3" by (simp add: mask_eq_exp_minus_1)
  then have "w AND 0x07 = take_bit 3 w"
    by (simp add: take_bit_eq_mask)
  then show ?thesis by (simp add: take_bit_eq_mod unat_mod)
qed

lemma unat_bits24_less: "unat (bits24 data) < 2 ^ 24"
  by (simp add: unat_bits24)

lemma unat_zeros8_less: "unat (zeros8 data) < 256"
proof -
  have "unat data < 2 ^ 32" using unsigned_less [of data] by simp
  then show ?thesis by (simp add: unat_zeros8 less_mult_imp_div_less)
qed

lemma bits24_msb: "bits24 data AND 0x00800000 \<noteq> 0 \<longleftrightarrow> 2 ^ 23 \<le> unat (bits24 data)"
proof -
  let ?b = "unat (bits24 data)"
  have "bits24 data AND 0x00800000 \<noteq> 0 \<longleftrightarrow> unat (bits24 data AND 0x00800000) \<noteq> 0"
    by (simp add: unat_eq_0)
  also have "\<dots> \<longleftrightarrow> ?b AND push_bit 23 1 \<noteq> 0"
    by (simp add: unsigned_and_eq)
  also have "\<dots> \<longleftrightarrow> bit ?b 23"
    by (simp only: bit_iff_and_push_bit_not_eq_0)
  also have "\<dots> \<longleftrightarrow> odd (?b div 2 ^ 23)"
    by (simp only: bit_iff_odd)
  also have "\<dots> \<longleftrightarrow> 2 ^ 23 \<le> ?b"
  proof -
    have "?b div 2 ^ 23 < 2"
      using unat_bits24_less [of data] by (simp add: less_mult_imp_div_less)
    then have "?b div 2 ^ 23 = 0 \<or> ?b div 2 ^ 23 = 1"
      by linarith
    moreover have "?b div 2 ^ 23 = 0 \<longleftrightarrow> ?b < 2 ^ 23"
      by (simp add: div_eq_0_iff)
    ultimately show ?thesis by auto
  qed
  finally show ?thesis .
qed

lemma unat_threshold:
  assumes "n \<le> 8"
  shows "unat (push_bit n (bits24 data)) = unat (bits24 data) * 2 ^ n"
proof -
  have "(2::nat) ^ n \<le> 2 ^ 8" using assms by (intro power_increasing) simp_all
  then have "unat (bits24 data) * 2 ^ n \<le> unat (bits24 data) * 2 ^ 8"
    by (rule mult_le_mono2)
  also have "\<dots> < 2 ^ 24 * 2 ^ 8"
    using unat_bits24_less [of data] by (intro mult_strict_right_mono) simp_all
  finally have lt: "unat (bits24 data) * 2 ^ n < 2 ^ 32" by simp
  have "unat (push_bit n (bits24 data)) = take_bit 32 (push_bit n (unat (bits24 data)))"
    using unsigned_push_bit_eq [of n "bits24 data", where ?'a = nat] by simp
  also have "\<dots> = take_bit 32 (unat (bits24 data) * 2 ^ n)"
    by (simp only: push_bit_eq_mult)
  also have "\<dots> = unat (bits24 data) * 2 ^ n"
    using lt by (rule take_bit_nat_eq_self)
  finally show ?thesis .
qed

lemma unat_word_of_int_small:
  "0 \<le> v \<Longrightarrow> v < 2 ^ 32 \<Longrightarrow> unat (word_of_int v :: 32 word) = nat v"
  by (simp add: unsigned_of_int take_bit_int_eq_self)



lemma unat_read_candidate:
  "unat (read_candidate hash src) =
     le_value [hash ! src, hash ! (src + 1), hash ! (src + 2), hash ! (src + 3)]"
proof -
  let ?a = "hash ! src" and ?b = "hash ! (src + 1)" and ?c = "hash ! (src + 2)"
    and ?d = "hash ! (src + 3)"
  let ?v = "uint ?a + 256 * (uint ?b + 256 * (uint ?c + 256 * uint ?d))"
  have r: "read_candidate hash src = word_of_int ?v"
    by (simp add: read_candidate_def word_rcat_def)
  have b: "uint ?a < 256" "uint ?b < 256" "uint ?c < 256" "uint ?d < 256"
    using uint_lt2p [of ?a] uint_lt2p [of ?b] uint_lt2p [of ?c] uint_lt2p [of ?d] by simp_all
  have nn: "0 \<le> ?v" by simp
  have lt: "?v < 2 ^ 32" using b by simp
  have "unat (word_of_int ?v :: 32 word) = nat ?v"
    using nn lt by (rule unat_word_of_int_small)
  also have "\<dots> = le_value [?a, ?b, ?c, ?d]"
    by (simp add: nat_add_distrib nat_mult_distrib)
  finally show ?thesis using r by simp
qed

lemma bound_split:
  fixes lo L m M t hi :: nat
  assumes "lo < L" "m < M" "t < M"
  shows "lo + L * (m + M * hi) \<le> t * L \<longleftrightarrow> hi = 0 \<and> (m < t \<or> (m = t \<and> lo = 0))"
proof (cases "hi = 0")
  case False
  then have "M \<le> M * hi" by simp
  then have "L * M \<le> L * (m + M * hi)" by (simp add: trans_le_add2)
  moreover have "t * L < L * M" using assms by simp
  ultimately have "t * L < lo + L * (m + M * hi)" by linarith
  then show ?thesis using False by simp
next
  case True
  have L: "0 < L" using assms by simp
  consider "m < t" | "m = t" | "t < m" by linarith
  then show ?thesis
  proof cases
    case 1
    then have "L * (m + 1) \<le> L * t" by (intro mult_le_mono2) simp
    then have "lo + L * m < L * t + 1" using assms(1) by (simp add: algebra_simps)
    then show ?thesis using 1 True by (simp add: mult.commute)
  next
    case 2
    then show ?thesis using True by (simp add: mult.commute)
  next
    case 3
    then have "L * (t + 1) \<le> L * m" by (intro mult_le_mono2) simp
    then have "t * L < lo + L * m" using L by (simp add: algebra_simps)
    then show ?thesis using 3 True by simp
  qed
qed

lemma set_drop_zero:
  "(\<forall>x \<in> set (drop n xs). x = (0::8 word)) \<longleftrightarrow> (\<forall>i. n \<le> i \<and> i < length xs \<longrightarrow> xs ! i = 0)"
proof
  assume a: "\<forall>x \<in> set (drop n xs). x = 0"
  show "\<forall>i. n \<le> i \<and> i < length xs \<longrightarrow> xs ! i = 0"
  proof (intro allI impI)
    fix i assume i: "n \<le> i \<and> i < length xs"
    then have "drop n xs ! (i - n) = xs ! i" by simp
    moreover have "i - n < length (drop n xs)" using i by (simp add: diff_less_mono)
    ultimately have "xs ! i \<in> set (drop n xs)" by (metis nth_mem)
    then show "xs ! i = 0" using a by blast
  qed
next
  assume a: "\<forall>i. n \<le> i \<and> i < length xs \<longrightarrow> xs ! i = 0"
  show "\<forall>x \<in> set (drop n xs). x = 0"
  proof
    fix x assume "x \<in> set (drop n xs)"
    then obtain k where k: "k < length (drop n xs)" "drop n xs ! k = x"
      by (auto simp add: in_set_conv_nth)
    then have "x = xs ! (n + k)" by simp
    moreover have "n + k < length xs" using k by simp
    ultimately show "x = 0" using a by simp
  qed
qed

lemma set_take_zero:
  assumes "n \<le> length xs"
  shows "(\<forall>x \<in> set (take n xs). x = (0::8 word)) \<longleftrightarrow> (\<forall>i. i < n \<longrightarrow> xs ! i = 0)"
proof
  assume a: "\<forall>x \<in> set (take n xs). x = 0"
  show "\<forall>i. i < n \<longrightarrow> xs ! i = 0"
  proof (intro allI impI)
    fix i assume i: "i < n"
    then have "take n xs ! i = xs ! i" by simp
    moreover have "i < length (take n xs)" using i assms by simp
    ultimately have "xs ! i \<in> set (take n xs)" by (metis nth_mem)
    then show "xs ! i = 0" using a by blast
  qed
next
  assume a: "\<forall>i. i < n \<longrightarrow> xs ! i = 0"
  show "\<forall>x \<in> set (take n xs). x = 0"
  proof
    fix x assume "x \<in> set (take n xs)"
    then obtain k where k: "k < length (take n xs)" "take n xs ! k = x"
      by (auto simp add: in_set_conv_nth)
    then show "x = 0" using a by simp
  qed
qed

lemma take4_nth:
  assumes "s + 4 \<le> length xs"
  shows "take 4 (drop s xs) = [xs ! s, xs ! (s + 1), xs ! (s + 2), xs ! (s + 3)]"
proof (rule nth_equalityI)
  show "length (take 4 (drop s xs)) = length [xs ! s, xs ! (s + 1), xs ! (s + 2), xs ! (s + 3)]"
    using assms by simp
next
  fix i assume "i < length (take 4 (drop s xs))"
  then have "i < 4" by simp
  then consider "i = 0" | "i = 1" | "i = 2" | "i = 3" by linarith
  then show "take 4 (drop s xs) ! i = [xs ! s, xs ! (s + 1), xs ! (s + 2), xs ! (s + 3)] ! i"
    using assms by cases simp_all
qed


lemma compatible_iff:
  assumes len: "length hash = 32" and wf: "well_formed data"
  shows "compatible data hash \<longleftrightarrow> le_value hash \<le> target_bound data"
proof -
  define z where "z = unat (zeros8 data)"
  define b where "b = unat (bits24 data)"
  define zb where "zb = z div 8"
  define sh where "sh = z mod 8"
  have z224: "z \<le> 224"
    using wf by (simp add: well_formed_def z_def word_le_nat_alt)
  have zb28: "zb \<le> 28" using z224 by (simp add: zb_def)
  have sh8: "sh < 8" by (simp add: sh_def)
  have zsplit: "z = 8 * zb + sh" by (simp add: zb_def sh_def)
  have blt: "b < 2 ^ 24" using unat_bits24_less [of data] by (simp add: b_def)
  have msb: "bits24 data AND 0x00800000 \<noteq> 0" using wf by (simp add: well_formed_def)
  have notgt: "\<not> zeros8 data > 256 - 4 * 8"
    using wf by (simp add: well_formed_def not_less)
  define low where "low = take (28 - zb) hash"
  define mid where "mid = take 4 (drop (28 - zb) hash)"
  define high where "high = drop (32 - zb) hash"
  have split: "hash = low @ mid @ high"
  proof -
    have d: "drop 4 (drop (28 - zb) hash) = high"
    proof -
      have "4 + (28 - zb) = 32 - zb" using zb28 by linarith
      then show ?thesis by (simp add: high_def)
    qed
    have m: "drop (28 - zb) hash = mid @ drop 4 (drop (28 - zb) hash)"
      unfolding mid_def by (rule append_take_drop_id [symmetric])
    have l: "hash = low @ drop (28 - zb) hash"
      unfolding low_def by (rule append_take_drop_id [symmetric])
    have m': "drop (28 - zb) hash = mid @ high"
      by (subst d [symmetric]) (rule m)
    show ?thesis by (subst m' [symmetric]) (rule l)
  qed
  have llow: "length low = 28 - zb" using len by (simp add: low_def)
  have lmid: "length mid = 4" using len zb28 by (simp add: mid_def)
  have H: "le_value hash = le_value low + 256 ^ (28 - zb) * (le_value mid + 256 ^ 4 * le_value high)"
    using split llow lmid by (metis le_value_append)
  have lowlt: "le_value low < 256 ^ (28 - zb)" using le_value_bound [of low] llow by simp
  have midlt: "le_value mid < 256 ^ 4" using le_value_bound [of mid] lmid by simp
  define thr where "thr = b * 2 ^ (8 - sh)"
  have thr_word: "unat (push_bit (8 - unat (zeros8 data AND 0x07)) (bits24 data)) = thr"
    by (simp add: unat_threshold unat_and_7 thr_def b_def sh_def z_def)
  have thrlt: "thr < 256 ^ 4"
  proof -
    have "(2::nat) ^ (8 - sh) \<le> 2 ^ 8" by (intro power_increasing) simp_all
    then have "b * 2 ^ (8 - sh) \<le> b * 2 ^ 8" by (rule mult_le_mono2)
    also have "\<dots> < 2 ^ 24 * 2 ^ 8" using blt by (intro mult_strict_right_mono) simp_all
    finally show ?thesis by (simp add: thr_def)
  qed
  have cand: "unat (read_candidate hash (28 - zb)) = le_value mid"
    using len zb28 by (simp add: unat_read_candidate mid_def take4_nth)
  have hi: "all_zero_from (\<lambda>i. hash ! (31 - i)) 0 zb \<longleftrightarrow> le_value high = 0"
  proof -
    have "all_zero_from (\<lambda>i. hash ! (31 - i)) 0 zb \<longleftrightarrow> (\<forall>j. j < zb \<longrightarrow> hash ! (31 - j) = 0)"
      by (simp add: all_zero_from_iff)
    also have "\<dots> \<longleftrightarrow> (\<forall>i. 32 - zb \<le> i \<and> i < 32 \<longrightarrow> hash ! i = 0)"
    proof
      assume a: "\<forall>j. j < zb \<longrightarrow> hash ! (31 - j) = 0"
      show "\<forall>i. 32 - zb \<le> i \<and> i < 32 \<longrightarrow> hash ! i = 0"
      proof (intro allI impI)
        fix i assume i: "32 - zb \<le> i \<and> i < 32"
        then have "31 - i < zb" "31 - (31 - i) = i" by linarith+
        then show "hash ! i = 0" using a by metis
      qed
    next
      assume a: "\<forall>i. 32 - zb \<le> i \<and> i < 32 \<longrightarrow> hash ! i = 0"
      show "\<forall>j. j < zb \<longrightarrow> hash ! (31 - j) = 0"
      proof (intro allI impI)
        fix j assume "j < zb"
        then have "32 - zb \<le> 31 - j \<and> 31 - j < 32" using zb28 by linarith
        then show "hash ! (31 - j) = 0" using a by blast
      qed
    qed
    also have "\<dots> \<longleftrightarrow> le_value high = 0"
      using len by (simp add: le_value_zero_iff high_def set_drop_zero)
    finally show ?thesis .
  qed
  have lo: "all_zero_from (\<lambda>i. hash ! i) 0 (28 - zb) \<longleftrightarrow> le_value low = 0"
    using len by (simp add: all_zero_from_iff le_value_zero_iff low_def set_take_zero)
  have c: "compatible data hash \<longleftrightarrow>
             le_value high = 0 \<and> (le_value mid < thr \<or> (le_value mid = thr \<and> le_value low = 0))"
    using notgt msb hi lo cand thr_word
    by (auto simp add: compatible_def Let_def word_less_nat_alt zb_def z_def)
  have T: "target_bound data = thr * 256 ^ (28 - zb)"
  proof -
    have "232 - z = (8 - sh) + 8 * (28 - zb)" using zsplit zb28 sh8 by linarith
    then have "(2::nat) ^ (232 - z) = 2 ^ (8 - sh) * (2 ^ 8) ^ (28 - zb)"
      by (simp add: power_add power_mult)
    then show ?thesis by (simp add: target_bound_def thr_def b_def z_def)
  qed
  show ?thesis
    using bound_split [OF lowlt midlt thrlt, of "le_value high"] by (simp add: c H T)
qed

lemma compatible_well_formed: "compatible data hash \<Longrightarrow> well_formed data"
  by (auto simp add: compatible_def well_formed_def Let_def not_less split: if_splits)

lemma bit_length_eq: "2 ^ k \<le> n \<Longrightarrow> n < 2 ^ Suc k \<Longrightarrow> bit_length n = Suc k"
proof (induction k arbitrary: n)
  case 0
  then have "n = 1" by simp
  then show ?case by (simp add: bit_length.simps [of "Suc 0"] bit_length.simps [of 0])
next
  case (Suc k)
  have "2 ^ k \<le> n div 2" using Suc.prems by simp
  moreover have "n div 2 < 2 ^ Suc k" using Suc.prems by simp
  ultimately have "bit_length (n div 2) = Suc k" by (rule Suc.IH)
  moreover have "n \<noteq> 0" using Suc.prems by auto
  ultimately show ?case by (simp add: bit_length.simps [of n])
qed

lemma round_nearest_even_bounds:
  "n div d \<le> round_nearest_even n d" "round_nearest_even n d \<le> n div d + 1"
  by (simp_all add: round_nearest_even_def Let_def)

lemma round_exact: "n mod d = 0 \<Longrightarrow> 0 < d \<Longrightarrow> round_nearest_even n d = n div d"
  by (simp add: round_nearest_even_def Let_def)

lemma recip_sig_gt:
  assumes "b < 2 ^ 24" "0 < b"
  shows "2 ^ 52 < recip_sig b"
proof -
  have "b \<le> 2 ^ 24 - 1" using assms by simp
  then have "(2::nat) ^ 76 div (2 ^ 24 - 1) \<le> 2 ^ 76 div b"
    using assms(2) by (intro div_le_mono2) simp_all
  moreover have "(2::nat) ^ 52 < 2 ^ 76 div (2 ^ 24 - 1)" by simp
  ultimately show ?thesis
    using round_nearest_even_bounds(1) [of "2 ^ 76" b] unfolding recip_sig_def by linarith
qed

lemma recip_sig_le:
  assumes "2 ^ 23 \<le> b"
  shows "recip_sig b \<le> 2 ^ 53"
proof (cases "b = 2 ^ 23")
  case True
  have "(2::nat) ^ 76 mod 2 ^ 23 = 0" by simp
  then have "recip_sig (2 ^ 23) = 2 ^ 76 div 2 ^ 23" unfolding recip_sig_def by (intro round_exact) simp_all
  then show ?thesis using True by simp
next
  case False
  then have "2 ^ 23 + 1 \<le> b" using assms by simp
  then have "(2::nat) ^ 76 div b \<le> 2 ^ 76 div (2 ^ 23 + 1)"
    by (intro div_le_mono2) simp_all
  moreover have "(2::nat) ^ 76 div (2 ^ 23 + 1) + 1 \<le> 2 ^ 53" by simp
  ultimately show ?thesis
    using round_nearest_even_bounds(2) [of "2 ^ 76" b] unfolding recip_sig_def by linarith
qed

lemma recip_sig_strict_antitone:
  assumes "2 ^ 23 \<le> b1" "b1 < b2" "b2 < 2 ^ 24"
  shows "recip_sig b2 < recip_sig b1"
proof -
  define q2 where "q2 = (2::nat) ^ 76 div b2"
  have b2pos: "0 < b2" using assms by simp
  have b1pos: "0 < b1" using assms by simp
  have q2b2: "q2 * b2 \<le> 2 ^ 76" by (simp add: q2_def)
  have "(2::nat) ^ 76 div 2 ^ 24 \<le> q2"
    unfolding q2_def using assms b2pos by (intro div_le_mono2) simp_all
  then have q2big: "2 ^ 52 \<le> q2" by simp
  have "2 * b2 \<le> q2 + 2" using assms(3) q2big by simp
  have "(q2 + 2) * b1 \<le> (q2 + 2) * (b2 - 1)" using assms(2) by (intro mult_le_mono2) simp
  also have "\<dots> = q2 * b2 + 2 * b2 - (q2 + 2)" using b2pos by (simp add: algebra_simps)
  also have "\<dots> \<le> q2 * b2" using \<open>2 * b2 \<le> q2 + 2\<close> by simp
  also have "\<dots> \<le> 2 ^ 76" by (rule q2b2)
  finally have "q2 + 2 \<le> 2 ^ 76 div b1"
    using b1pos by (simp add: less_eq_div_iff_mult_less_eq)
  then show ?thesis
    using round_nearest_even_bounds(1) [of "2 ^ 76" b1] round_nearest_even_bounds(2) [of "2 ^ 76" b2]
    unfolding recip_sig_def q2_def by linarith
qed

lemma difficulty_well_formed:
  assumes "well_formed data"
  shows "difficulty data =
           Finite (real (recip_sig (unat (bits24 data))) * 2 ^ (unat (zeros8 data) + 24) / 2 ^ 76)"
proof -
  have m: "2 ^ 23 \<le> unat (bits24 data)" using assms by (simp add: well_formed_def bits24_msb)
  have l: "unat (bits24 data) < 2 ^ Suc 23" using unat_bits24_less [of data] by simp
  have k: "bit_length (unat (bits24 data)) = 24" using bit_length_eq [OF m l] by simp
  have nz: "unat (bits24 data) \<noteq> 0" using m by auto
  show ?thesis
    using nz by (simp add: difficulty_def double_reciprocal_def ldexp_def Let_def k recip_sig_def)
qed

lemma difficulty_le_bound:
  assumes w1: "well_formed t1" and w2: "well_formed t2"
    and le: "double_le (difficulty t1) (difficulty t2)"
  shows "target_bound t2 \<le> target_bound t1"
proof -
  define b1 z1 b2 z2 where "b1 = unat (bits24 t1)" and "z1 = unat (zeros8 t1)"
    and "b2 = unat (bits24 t2)" and "z2 = unat (zeros8 t2)"
  have b1: "2 ^ 23 \<le> b1" "b1 < 2 ^ 24"
    using w1 unat_bits24_less [of t1] by (simp_all add: well_formed_def bits24_msb b1_def)
  have b2: "2 ^ 23 \<le> b2" "b2 < 2 ^ 24"
    using w2 unat_bits24_less [of t2] by (simp_all add: well_formed_def bits24_msb b2_def)
  have z1: "z1 \<le> 224" using w1 by (simp add: well_formed_def z1_def word_le_nat_alt)
  have z2: "z2 \<le> 224" using w2 by (simp add: well_formed_def z2_def word_le_nat_alt)
  have "real (recip_sig b1) * 2 ^ (z1 + 24) / 2 ^ 76 \<le> real (recip_sig b2) * 2 ^ (z2 + 24) / 2 ^ 76"
    using le by (simp add: difficulty_well_formed [OF w1] difficulty_well_formed [OF w2]
                   b1_def b2_def z1_def z2_def)
  then have "real (recip_sig b1) * 2 ^ (z1 + 24) \<le> real (recip_sig b2) * 2 ^ (z2 + 24)"
    by (simp add: divide_le_cancel)
  then have "real (recip_sig b1 * 2 ^ (z1 + 24)) \<le> real (recip_sig b2 * 2 ^ (z2 + 24))"
    by simp
  then have "recip_sig b1 * 2 ^ (z1 + 24) \<le> recip_sig b2 * 2 ^ (z2 + 24)"
    by (simp only: of_nat_le_iff)
  then have "(recip_sig b1 * 2 ^ z1) * 2 ^ 24 \<le> (recip_sig b2 * 2 ^ z2) * 2 ^ 24"
    by (simp add: power_add mult.assoc)
  then have sle: "recip_sig b1 * 2 ^ z1 \<le> recip_sig b2 * 2 ^ z2" by simp
  have s1: "2 ^ 52 < recip_sig b1" using b1 by (intro recip_sig_gt) simp_all
  have s2: "recip_sig b2 \<le> 2 ^ 53" using b2 by (intro recip_sig_le) simp_all
  consider "z2 < z1" | "z1 = z2" | "z1 < z2" by linarith
  then show ?thesis
  proof cases
    case 1
    then have "Suc z2 \<le> z1" by simp
    then have "(2::nat) ^ Suc z2 \<le> 2 ^ z1" by (intro power_increasing) simp_all
    then have "2 ^ 52 * (2::nat) ^ Suc z2 \<le> 2 ^ 52 * 2 ^ z1" by (rule mult_le_mono2)
    also have "\<dots> < recip_sig b1 * 2 ^ z1" using s1 by (intro mult_strict_right_mono) simp_all
    finally have "2 ^ 53 * (2::nat) ^ z2 < recip_sig b1 * 2 ^ z1" by simp
    moreover have "recip_sig b2 * 2 ^ z2 \<le> 2 ^ 53 * 2 ^ z2" using s2 by (rule mult_le_mono1)
    ultimately have False using sle by linarith
    then show ?thesis ..
  next
    case 2
    then have "recip_sig b1 \<le> recip_sig b2" using sle by simp
    then have "\<not> b1 < b2" using recip_sig_strict_antitone [OF b1(1) _ b2(2)] by fastforce
    then have "b2 \<le> b1" by simp
    then have "b2 * 2 ^ (232 - z2) \<le> b1 * 2 ^ (232 - z2)" by (rule mult_le_mono1)
    then show ?thesis using 2 by (simp add: target_bound_def b1_def b2_def z1_def z2_def)
  next
    case 3
    have "b2 * 2 ^ (232 - z2) \<le> 2 ^ 24 * 2 ^ (232 - z2)"
      using b2(2) by (intro mult_le_mono1) simp
    also have "\<dots> = 2 ^ (24 + (232 - z2))" by (simp add: power_add)
    also have "\<dots> \<le> 2 ^ (23 + (232 - z1))"
      using 3 z2 z1 by (intro power_increasing) simp_all
    also have "\<dots> = 2 ^ 23 * 2 ^ (232 - z1)" by (simp add: power_add)
    also have "\<dots> \<le> b1 * 2 ^ (232 - z1)" using b1(1) by (rule mult_le_mono1)
    finally show ?thesis by (simp add: target_bound_def b1_def b2_def z1_def z2_def)
  qed
qed

lemma difficulty_normalised:
  assumes m: "2 ^ 23 \<le> unat (bits24 data)"
  shows "difficulty data =
           Finite (real (recip_sig (unat (bits24 data))) * 2 ^ (unat (zeros8 data) + 24) / 2 ^ 76)"
proof -
  have l: "unat (bits24 data) < 2 ^ Suc 23" using unat_bits24_less [of data] by simp
  have k: "bit_length (unat (bits24 data)) = 24" using bit_length_eq [OF m l] by simp
  have nz: "unat (bits24 data) \<noteq> 0" using m by auto
  show ?thesis
    using nz by (simp add: difficulty_def double_reciprocal_def ldexp_def Let_def k recip_sig_def)
qed

lemma difficulty_le_zeros:
  assumes m1: "2 ^ 23 \<le> unat (bits24 t1)" and m2: "2 ^ 23 \<le> unat (bits24 t2)"
    and le: "double_le (difficulty t1) (difficulty t2)"
  shows "unat (zeros8 t1) \<le> unat (zeros8 t2)"
proof (rule ccontr)
  define b1 z1 b2 z2 where "b1 = unat (bits24 t1)" and "z1 = unat (zeros8 t1)"
    and "b2 = unat (bits24 t2)" and "z2 = unat (zeros8 t2)"
  assume "\<not> unat (zeros8 t1) \<le> unat (zeros8 t2)"
  then have "Suc z2 \<le> z1" by (simp add: z1_def z2_def)
  have b1: "2 ^ 23 \<le> b1" "b1 < 2 ^ 24"
    using m1 unat_bits24_less [of t1] by (simp_all add: b1_def)
  have b2: "2 ^ 23 \<le> b2" "b2 < 2 ^ 24"
    using m2 unat_bits24_less [of t2] by (simp_all add: b2_def)
  have "real (recip_sig b1) * 2 ^ (z1 + 24) / 2 ^ 76 \<le> real (recip_sig b2) * 2 ^ (z2 + 24) / 2 ^ 76"
    using le by (simp add: difficulty_normalised [OF m1] difficulty_normalised [OF m2]
                   b1_def b2_def z1_def z2_def)
  then have "real (recip_sig b1) * 2 ^ (z1 + 24) \<le> real (recip_sig b2) * 2 ^ (z2 + 24)"
    by (simp add: divide_le_cancel)
  then have "real (recip_sig b1 * 2 ^ (z1 + 24)) \<le> real (recip_sig b2 * 2 ^ (z2 + 24))"
    by simp
  then have "recip_sig b1 * 2 ^ (z1 + 24) \<le> recip_sig b2 * 2 ^ (z2 + 24)"
    by (simp only: of_nat_le_iff)
  then have "(recip_sig b1 * 2 ^ z1) * 2 ^ 24 \<le> (recip_sig b2 * 2 ^ z2) * 2 ^ 24"
    by (simp add: power_add mult.assoc)
  then have sle: "recip_sig b1 * 2 ^ z1 \<le> recip_sig b2 * 2 ^ z2" by simp
  have s1: "2 ^ 52 < recip_sig b1" using b1 by (intro recip_sig_gt) simp_all
  have s2: "recip_sig b2 \<le> 2 ^ 53" using b2 by (intro recip_sig_le) simp_all
  have "(2::nat) ^ Suc z2 \<le> 2 ^ z1" using \<open>Suc z2 \<le> z1\<close> by (intro power_increasing) simp_all
  then have "2 ^ 52 * (2::nat) ^ Suc z2 \<le> 2 ^ 52 * 2 ^ z1" by (rule mult_le_mono2)
  also have "\<dots> < recip_sig b1 * 2 ^ z1" using s1 by (intro mult_strict_right_mono) simp_all
  finally have "2 ^ 53 * (2::nat) ^ z2 < recip_sig b1 * 2 ^ z1" by simp
  moreover have "recip_sig b2 * 2 ^ z2 \<le> 2 ^ 53 * 2 ^ z2" using s2 by (rule mult_le_mono1)
  ultimately show False using sle by linarith
qed

text \<open>
  C9: compatible is monotone in difficulty. A TargetV1 value has the top bit of its
  mantissa set: bits24() returns values in [2^23, 2^24), as its comment and the encoding
  say. For all such t1, for all t2 and every 32-byte hash h: if t1.difficulty() <=
  t2.difficulty() and t2.compatible(h), then t1.compatible(h). Nothing is assumed about
  the zero count of t1 or about t2.
\<close>

theorem compatible_monotone_in_difficulty:
  assumes "length hash = 32"
    and "2 ^ 23 \<le> unat (bits24 t1)"
    and "double_le (difficulty t1) (difficulty t2)"
    and "compatible t2 hash"
  shows "compatible t1 hash"
proof -
  have w2: "well_formed t2" using assms(4) by (rule compatible_well_formed)
  then have m2: "2 ^ 23 \<le> unat (bits24 t2)" by (simp add: well_formed_def bits24_msb)
  have "unat (zeros8 t2) \<le> 224" using w2 by (simp add: well_formed_def word_le_nat_alt)
  then have "unat (zeros8 t1) \<le> 224"
    using difficulty_le_zeros [OF assms(2) m2 assms(3)] by simp
  then have w1: "well_formed t1"
    using assms(2) by (simp add: well_formed_def word_le_nat_alt bits24_msb)
  have "le_value hash \<le> target_bound t2"
    using assms(4) by (simp add: compatible_iff [OF assms(1) w2])
  also have "\<dots> \<le> target_bound t1"
    using w1 w2 assms(3) by (rule difficulty_le_bound)
  finally show ?thesis by (simp add: compatible_iff [OF assms(1) w1])
qed

lemma le_value_replicate_zero: "le_value (replicate n 0) = 0"
  by (induction n) simp_all

lemma recip_sig_power: "recip_sig (2 ^ 23) = 2 ^ 53"
proof -
  have "(2::nat) ^ 76 mod 2 ^ 23 = 0" by simp
  then have "recip_sig (2 ^ 23) = 2 ^ 76 div 2 ^ 23" unfolding recip_sig_def by (intro round_exact) simp_all
  then show ?thesis by simp
qed

lemma example_target_fields:
  "unat (bits24 0x20800000) = 2 ^ 23" "unat (zeros8 0x20800000) = 32"
  "unat (bits24 0x08800000) = 2 ^ 23" "unat (zeros8 0x08800000) = 8"
  "unat (bits24 0x08FFFFFF) = 2 ^ 24 - 1" "unat (zeros8 0x08FFFFFF) = 8"
  "unat (bits24 1) = 1" "unat (zeros8 1) = 0"
  by (simp_all add: unat_bits24 unat_zeros8)

lemma example_target_well_formed:
  "well_formed 0x20800000" "well_formed 0x08800000" "well_formed 0x08FFFFFF" "\<not> well_formed 1"
  by (simp_all add: well_formed_def bits24_msb word_le_nat_alt example_target_fields)

text \<open>
  The range of the mantissa is needed. The data word 1 (no zeros, mantissa 1) is outside
  the encoding; difficulty() gives it 2^24, below the difficulty 2^33 of the target
  0x20800000, which the all-zero hash satisfies, but compatible rejects every hash for it.
\<close>

lemma compatible_outside_encoding:
  "\<not> 2 ^ 23 \<le> unat (bits24 1) \<and>
   double_le (difficulty 1) (difficulty 0x20800000) \<and>
   compatible 0x20800000 (replicate 32 0) \<and>
   \<not> compatible 1 (replicate 32 0)"
proof -
  have "bit_length 1 = 1" using bit_length_eq [of 0 1] by simp
  then have d1: "difficulty 1 = Finite (2 ^ 24)"
    by (simp add: difficulty_def double_reciprocal_def ldexp_def Let_def example_target_fields
          round_nearest_even_def)
  have d2: "difficulty 0x20800000 = Finite (2 ^ 33)"
    using recip_sig_power
    by (simp add: difficulty_well_formed [OF example_target_well_formed(1)] example_target_fields)
  have c2: "compatible 0x20800000 (replicate 32 0)"
    by (simp add: compatible_iff [OF _ example_target_well_formed(1)] le_value_replicate_zero)
  have c1: "\<not> compatible 1 (replicate 32 0)"
    using compatible_well_formed [of 1 "replicate 32 0"] example_target_well_formed(4) by blast
  show ?thesis using d1 d2 c1 c2 by (simp add: example_target_fields)
qed

theorem compatible_monotone_in_difficulty_witness:
  "length (replicate 30 0 @ [0x40, 0 :: 8 word]) = 32 \<and>
   2 ^ 23 \<le> unat (bits24 0x08FFFFFF) \<and>
   double_le (difficulty 0x08FFFFFF) (difficulty 0x08800000) \<and>
   compatible 0x08800000 (replicate 30 0 @ [0x40, 0]) \<and>
   compatible 0x08FFFFFF (replicate 30 0 @ [0x40, 0])"
proof -
  let ?h = "replicate 30 0 @ [0x40, 0 :: 8 word]"
  have l: "length ?h = 32" by simp
  have m: "2 ^ 23 \<le> unat (bits24 0x08FFFFFF)" by (simp add: example_target_fields)
  have "recip_sig (2 ^ 24 - 1) \<le> 2 ^ 53" by (intro recip_sig_le) simp
  then have d: "double_le (difficulty 0x08FFFFFF) (difficulty 0x08800000)"
    using recip_sig_power
    by (simp add: difficulty_well_formed [OF example_target_well_formed(2)]
          difficulty_well_formed [OF example_target_well_formed(3)] example_target_fields)
  have v: "le_value ?h = 64 * 256 ^ 30"
    by (simp add: le_value_append le_value_replicate_zero)
  have c: "compatible 0x08800000 ?h"
    by (simp add: compatible_iff [OF l example_target_well_formed(2)] v target_bound_def example_target_fields)
  show ?thesis
    using l m d c compatible_monotone_in_difficulty [OF l m d c]
    by blast
qed

end
